theory Spec2Isabelle
  imports Complex_Main "HOL-Library.Word" "HOL-Library.Stream"
begin

section \<open>Embedding of Snake.cpp\<close>

text \<open>
  The game keeps every coordinate in a raylib \<open>Vector2\<close>, a pair of floats. All values
  the program ever stores there are integers of magnitude far below \<open>2 ^ 24\<close> (multiples of
  the cell size near the board), which a float holds exactly and on which raylib's
  epsilon comparison coincides with equality. A \<open>Vector2\<close> is therefore a pair of
  integers here. Times and intervals are doubles in the source and real numbers here.
  The counters \<open>score\<close> and \<open>length\<close> are unbounded integers; \<open>session_counters\<close>
  below bounds them in every session.
\<close>

type_synonym Vector2 = "int \<times> int"

definition gridWidth :: int where "gridWidth = 800"
definition gridHeight :: int where "gridHeight = 800"
definition offset :: int where "offset = 50"
definition cellSize :: int where "cellSize = 50"
definition rows :: int where "rows = gridHeight div cellSize"
definition cols :: int where "cols = gridWidth div cellSize"

definition Vector2Equals :: "Vector2 \<Rightarrow> Vector2 \<Rightarrow> bool" where
  "Vector2Equals p q = (fst p = fst q \<and> snd p = snd q)"

definition Vector2Add :: "Vector2 \<Rightarrow> Vector2 \<Rightarrow> Vector2" where
  "Vector2Add v1 v2 = (fst v1 + fst v2, snd v1 + snd v2)"

definition Vector2Scale :: "Vector2 \<Rightarrow> int \<Rightarrow> Vector2" where
  "Vector2Scale v scale = (fst v * scale, snd v * scale)"

subsection \<open>GameSettings\<close>

text \<open>
  \<open>enum class Difficulty {Easy, Medium, Hard}\<close> is carried by its underlying integer, so
  that the \<open>default\<close> branch of \<open>getInterval\<close> has inputs.
\<close>

type_synonym Difficulty = int

definition Easy :: Difficulty where "Easy = 0"
definition Medium :: Difficulty where "Medium = 1"
definition Hard :: Difficulty where "Hard = 2"

definition getInterval :: "Difficulty \<Rightarrow> real" where
  "getInterval difficulty =
     (if difficulty = Easy then 0.5
      else if difficulty = Medium then 0.3
      else if difficulty = Hard then 0.1
      else 0.6)"

definition setDifficulty :: "string \<Rightarrow> Difficulty" where
  "setDifficulty sDifficulty =
     (if sDifficulty = ''Easy'' then Easy
      else if sDifficulty = ''Medium'' then Medium
      else if sDifficulty = ''Hard'' then Hard
      else Easy)"

subsection \<open>State and per-frame input\<close>

text \<open>
  One record holds the members of \<open>Snake\<close>, \<open>Food\<close>, \<open>CollisionHandler\<close>,
  \<open>ScoreHandler\<close> and \<open>GameCore\<close> that the update path reads or writes, the function-local
  static \<open>lastUpdateTime\<close>, and the results that the calls of \<open>GetRandomValue(0, 15)\<close>
  still to come will return (\<open>rng\<close>).
\<close>

record game =
  difficulty :: Difficulty
  interval :: real
  addSegment :: bool
  snakeBody :: "Vector2 list"
  lastDirection :: Vector2
  lastUpdateTime :: real
  applePos :: Vector2
  foodEaten :: bool
  collision_gameOver :: bool
  score :: int
  length_counter :: int
  gameOver :: bool
  rng :: "int stream"

text \<open>What a frame reads from raylib: the four keys and the clock.\<close>

record frame =
  KEY_W :: bool
  KEY_S :: bool
  KEY_A :: bool
  KEY_D :: bool
  GetTime :: real

subsection \<open>Food\<close>

fun shouldGenerateAgain :: "Vector2 list \<Rightarrow> Vector2 \<Rightarrow> bool" where
  "shouldGenerateAgain [] pos = False"
| "shouldGenerateAgain (body # rest) pos =
     (if Vector2Equals pos body then True else shouldGenerateAgain rest pos)"

text \<open>
  The \<open>do ... while\<close> loop draws \<open>randX\<close> and then \<open>randY\<close> in each round. It has no
  bound, so the result is optional: \<open>None\<close> is the loop that never ends.
\<close>

partial_function (option) generateRandomPos ::
  "Vector2 list \<Rightarrow> int stream \<Rightarrow> (Vector2 \<times> int stream) option" where
  "generateRandomPos body rs =
     (let randX = shd rs;
          randY = shd (stl rs);
          pos = (randX * cellSize + offset, randY * cellSize + offset)
      in if shouldGenerateAgain body pos then generateRandomPos body (stl (stl rs))
         else Some (pos, stl (stl rs)))"

subsection \<open>Snake\<close>

definition getMoveDirection :: "frame \<Rightarrow> game \<Rightarrow> Vector2 \<times> game" where
  "getMoveDirection k g =
     (let g' =
        (if KEY_W k \<and> snd (lastDirection g) \<noteq> 1 then g\<lparr>lastDirection := (0, -1)\<rparr>
         else if KEY_S k \<and> snd (lastDirection g) \<noteq> -1 then g\<lparr>lastDirection := (0, 1)\<rparr>
         else if KEY_A k \<and> fst (lastDirection g) \<noteq> 1 then g\<lparr>lastDirection := (-1, 0)\<rparr>
         else if KEY_D k \<and> fst (lastDirection g) \<noteq> -1 then g\<lparr>lastDirection := (1, 0)\<rparr>
         else g)
      in (Vector2Scale (lastDirection g') cellSize, g'))"

definition moveSnake :: "Vector2 \<Rightarrow> game \<Rightarrow> game" where
  "moveSnake direction g =
     (let g1 = g\<lparr>snakeBody := Vector2Add (snakeBody g ! 0) direction # snakeBody g\<rparr>
      in if addSegment g1 then g1\<lparr>addSegment := False\<rparr>
         else g1\<lparr>snakeBody := butlast (snakeBody g1)\<rparr>)"

definition Snake_Update :: "frame \<Rightarrow> game \<Rightarrow> game" where
  "Snake_Update k g =
     (let currentTime = GetTime k;
          (direction, g1) = getMoveDirection k g
      in if currentTime - lastUpdateTime g1 \<ge> interval g1
         then (moveSnake direction g1)\<lparr>lastUpdateTime := currentTime\<rparr>
         else g1)"

subsection \<open>CollisionHandler\<close>

definition foodCollisionHandle :: "game \<Rightarrow> game option" where
  "foodCollisionHandle g =
     (if Vector2Equals (snakeBody g ! 0) (applePos g)
      then (case generateRandomPos (snakeBody g) (rng g) of
              None \<Rightarrow> None
            | Some (pos, rs) \<Rightarrow>
                Some (g\<lparr>applePos := pos, rng := rs, addSegment := True, foodEaten := True\<rparr>))
      else Some g)"

definition borderCollisionHandle :: "Vector2 \<Rightarrow> game \<Rightarrow> game" where
  "borderCollisionHandle snakeHead g =
     (if fst snakeHead < offset \<or> fst snakeHead \<ge> gridWidth + offset \<or>
         snd snakeHead < offset \<or> snd snakeHead \<ge> gridHeight + offset
      then g\<lparr>collision_gameOver := True\<rparr> else g)"

text \<open>
  The loop index of \<open>selfCollisionHandle\<close> is an \<open>unsigned short\<close>: it wraps from 65535
  to 0. The loop yields whether it reached the assignment \<open>gameOver = true\<close>.
\<close>

partial_function (option) selfCollisionLoop ::
  "16 word \<Rightarrow> Vector2 \<Rightarrow> Vector2 list \<Rightarrow> bool option" where
  "selfCollisionLoop i snakeHead body =
     (if unat i < length body
      then (if Vector2Equals snakeHead (body ! unat i) then Some True
            else selfCollisionLoop (i + 1) snakeHead body)
      else Some False)"

definition selfCollisionHandle :: "Vector2 \<Rightarrow> game \<Rightarrow> game option" where
  "selfCollisionHandle snakeHead g =
     (case selfCollisionLoop 1 snakeHead (snakeBody g) of
        None \<Rightarrow> None
      | Some hit \<Rightarrow> Some (if hit then g\<lparr>collision_gameOver := True\<rparr> else g))"

definition handle :: "game \<Rightarrow> (bool \<times> game) option" where
  "handle g =
     (let snakeHead = snakeBody g ! 0 in
      case foodCollisionHandle g of
        None \<Rightarrow> None
      | Some g1 \<Rightarrow>
          (case selfCollisionHandle snakeHead (borderCollisionHandle snakeHead g1) of
             None \<Rightarrow> None
           | Some g3 \<Rightarrow> Some (collision_gameOver g3, g3)))"

subsection \<open>ScoreHandler\<close>

definition scoreMultiplier :: int where "scoreMultiplier = 10"

definition ScoreHandler_Update :: "game \<Rightarrow> game" where
  "ScoreHandler_Update g =
     (if foodEaten g
      then g\<lparr>score := score g + scoreMultiplier,
              length_counter := length_counter g + 1,
              foodEaten := False\<rparr>
      else g)"

subsection \<open>GameCore\<close>

definition GameCore_Update :: "frame \<Rightarrow> game \<Rightarrow> game option" where
  "GameCore_Update k g =
     (if \<not> gameOver g
      then (case handle (ScoreHandler_Update (Snake_Update k g)) of
              None \<Rightarrow> None
            | Some (over, g') \<Rightarrow> Some (g'\<lparr>gameOver := over\<rparr>))
      else Some g)"

text \<open>
  The constructor: the snake's member initialisers, the first apple drawn against the
  initial body, and the initial values of the handlers and of the static counters.
\<close>

definition initialBody :: "Vector2 list" where
  "initialBody =
     [((cols * cellSize) div 2 - cellSize, (rows * cellSize) div 2 - cellSize),
      ((cols * cellSize) div 2, (rows * cellSize) div 2 - cellSize)]"

definition GameCore :: "string \<Rightarrow> int stream \<Rightarrow> game option" where
  "GameCore sDifficulty rs =
     (case generateRandomPos initialBody rs of
        None \<Rightarrow> None
      | Some (pos, rs') \<Rightarrow>
          Some \<lparr>difficulty = setDifficulty sDifficulty,
                interval = getInterval (setDifficulty sDifficulty),
                addSegment = False,
                snakeBody = initialBody,
                lastDirection = (-1, 0),
                lastUpdateTime = 0,
                applePos = pos,
                foodEaten = False,
                collision_gameOver = False,
                score = 0,
                length_counter = 2,
                gameOver = False,
                rng = rs'\<rparr>)"

text \<open>The frame loop of \<open>exec\<close>, one \<open>Update\<close> per frame, on a finite list of frames.\<close>

fun exec :: "frame list \<Rightarrow> game \<Rightarrow> game option" where
  "exec [] g = Some g"
| "exec (k # ks) g =
     (case GameCore_Update k g of None \<Rightarrow> None | Some g' \<Rightarrow> exec ks g')"

subsection \<open>Notions the properties are stated with\<close>

text \<open>The cell with column index \<open>i\<close> and row index \<open>j\<close>, in world coordinates.\<close>

definition cell :: "int \<Rightarrow> int \<Rightarrow> Vector2" where
  "cell i j = (i * cellSize + offset, j * cellSize + offset)"

text \<open>The position computed in round \<open>n\<close> of the spawner's loop, rounds counted from 0.\<close>

definition draw :: "int stream \<Rightarrow> nat \<Rightarrow> Vector2" where
  "draw rs n = cell (rs !! (2 * n)) (rs !! (2 * n + 1))"

text \<open>The half-open board rectangle, and the grid-aligned cells inside it.\<close>

definition insideBoard :: "Vector2 \<Rightarrow> bool" where
  "insideBoard p =
     (offset \<le> fst p \<and> fst p < offset + gridWidth \<and>
      offset \<le> snd p \<and> snd p < offset + gridHeight)"

definition boardCell :: "Vector2 \<Rightarrow> bool" where
  "boardCell p =
     (insideBoard p \<and> (fst p - offset) mod cellSize = 0 \<and> (snd p - offset) mod cellSize = 0)"

text \<open>The four directions, and the exact reverse of a direction.\<close>

definition unitDirection :: "Vector2 \<Rightarrow> bool" where
  "unitDirection d = (d = (0, -1) \<or> d = (0, 1) \<or> d = (-1, 0) \<or> d = (1, 0))"

definition reverse :: "Vector2 \<Rightarrow> Vector2" where
  "reverse d = (- fst d, - snd d)"

text \<open>
  The direction resolver as the specification words it: the candidates in the order Up,
  Down, Left, Right, each with its key; the first pressed one that is not the reverse of
  the previous direction wins, and without one the previous direction stays.
\<close>

definition candidates :: "frame \<Rightarrow> (bool \<times> Vector2) list" where
  "candidates k = [(KEY_W k, (0, -1)), (KEY_S k, (0, 1)), (KEY_A k, (-1, 0)), (KEY_D k, (1, 0))]"

definition resolve_spec :: "frame \<Rightarrow> Vector2 \<Rightarrow> Vector2" where
  "resolve_spec k prev =
     (case find (\<lambda>c. fst c \<and> snd c \<noteq> reverse prev) (candidates k) of
        None \<Rightarrow> prev
      | Some c \<Rightarrow> snd c)"

text \<open>Whether the key of direction \<open>d\<close> is down in frame \<open>k\<close>.\<close>

definition pressed :: "frame \<Rightarrow> Vector2 \<Rightarrow> bool" where
  "pressed k d = (d \<in> set (map snd (filter fst (candidates k))))"

text \<open>
  The number of scheduled advances in a run of frames: a frame advances when its clock
  is at least one interval past the time of the last advance.
\<close>

fun advances :: "real \<Rightarrow> real \<Rightarrow> frame list \<Rightarrow> nat" where
  "advances iv t [] = 0"
| "advances iv t (k # ks) =
     (if GetTime k - t \<ge> iv then Suc (advances iv (GetTime k) ks) else advances iv t ks)"

subsection \<open>A concrete session\<close>

text \<open>
  Frames with no key, with only W and with only D down at clock value \<open>t\<close>, and a
  random source whose first two results put the first apple on the cell directly left
  of the initial head; every later round of the spawner yields the cell \<open>(200, 200)\<close>.
\<close>

definition idle :: "real \<Rightarrow> frame" where
  "idle t = \<lparr>KEY_W = False, KEY_S = False, KEY_A = False, KEY_D = False, GetTime = t\<rparr>"

definition onlyW :: "real \<Rightarrow> frame" where
  "onlyW t = \<lparr>KEY_W = True, KEY_S = False, KEY_A = False, KEY_D = False, GetTime = t\<rparr>"

definition onlyD :: "real \<Rightarrow> frame" where
  "onlyD t = \<lparr>KEY_W = False, KEY_S = False, KEY_A = False, KEY_D = True, GetTime = t\<rparr>"

definition demo_rng :: "int stream" where
  "demo_rng = 5 ## 6 ## sconst 3"

text \<open>The session \<open>GameCore game("Medium")\<close> on that random source, as constructed.\<close>

definition demo_start :: game where
  "demo_start =
     \<lparr>difficulty = Medium, interval = 0.3, addSegment = False,
      snakeBody = [(350, 350), (400, 350)], lastDirection = (-1, 0), lastUpdateTime = 0,
      applePos = (300, 350), foodEaten = False, collision_gameOver = False,
      score = 0, length_counter = 2, gameOver = False, rng = sconst 3\<rparr>"

text \<open>
  States of that session: after the first advance (the head on the apple), after the
  score update of the next frame, after the second advance (grown), at the crash into
  the left border; and after pressing W, then D, between two advances and reversing.
\<close>

definition demo_ate :: game where
  "demo_ate =
     \<lparr>difficulty = Medium, interval = 0.3, addSegment = True,
      snakeBody = [(300, 350), (350, 350)], lastDirection = (-1, 0), lastUpdateTime = 0.5,
      applePos = (200, 200), foodEaten = True, collision_gameOver = False,
      score = 0, length_counter = 2, gameOver = False, rng = sconst 3\<rparr>"

definition demo_scored :: game where
  "demo_scored =
     \<lparr>difficulty = Medium, interval = 0.3, addSegment = True,
      snakeBody = [(300, 350), (350, 350)], lastDirection = (-1, 0), lastUpdateTime = 0.5,
      applePos = (200, 200), foodEaten = False, collision_gameOver = False,
      score = 10, length_counter = 3, gameOver = False, rng = sconst 3\<rparr>"

definition demo_grown :: game where
  "demo_grown =
     \<lparr>difficulty = Medium, interval = 0.3, addSegment = False,
      snakeBody = [(250, 350), (300, 350), (350, 350)], lastDirection = (-1, 0),
      lastUpdateTime = 1,
      applePos = (200, 200), foodEaten = False, collision_gameOver = False,
      score = 10, length_counter = 3, gameOver = False, rng = sconst 3\<rparr>"

definition demo_over :: game where
  "demo_over =
     \<lparr>difficulty = Medium, interval = 0.3, addSegment = False,
      snakeBody = [(0, 350), (50, 350), (100, 350)], lastDirection = (-1, 0),
      lastUpdateTime = 3.5,
      applePos = (200, 200), foodEaten = False, collision_gameOver = True,
      score = 10, length_counter = 3, gameOver = True, rng = sconst 3\<rparr>"

definition demo_up :: game where
  "demo_up =
     \<lparr>difficulty = Medium, interval = 0.3, addSegment = True,
      snakeBody = [(300, 350), (350, 350)], lastDirection = (0, -1), lastUpdateTime = 0.5,
      applePos = (200, 200), foodEaten = False, collision_gameOver = False,
      score = 10, length_counter = 3, gameOver = False, rng = sconst 3\<rparr>"

definition demo_right :: game where
  "demo_right =
     \<lparr>difficulty = Medium, interval = 0.3, addSegment = True,
      snakeBody = [(300, 350), (350, 350)], lastDirection = (1, 0), lastUpdateTime = 0.5,
      applePos = (200, 200), foodEaten = False, collision_gameOver = False,
      score = 10, length_counter = 3, gameOver = False, rng = sconst 3\<rparr>"

definition demo_reversed :: game where
  "demo_reversed =
     \<lparr>difficulty = Medium, interval = 0.3, addSegment = False,
      snakeBody = [(350, 350), (300, 350), (350, 350)], lastDirection = (1, 0),
      lastUpdateTime = 1,
      applePos = (200, 200), foodEaten = False, collision_gameOver = True,
      score = 10, length_counter = 3, gameOver = True, rng = sconst 3\<rparr>"

text \<open>A running state in which the collision evaluation finds nothing.\<close>

definition calm :: "game \<Rightarrow> bool" where
  "calm g = (\<not> gameOver g \<and> \<not> collision_gameOver g \<and> insideBoard (snakeBody g ! 0) \<and>
     selfCollisionLoop 1 (snakeBody g ! 0) (snakeBody g) = Some False \<and>
     snakeBody g ! 0 \<noteq> applePos g)"

text \<open>The state of the session one advance before the crash.\<close>

definition demo_edge :: game where
  "demo_edge =
     \<lparr>difficulty = Medium, interval = 0.3, addSegment = False,
      snakeBody = [(50, 350), (100, 350), (150, 350)], lastDirection = (-1, 0),
      lastUpdateTime = 3,
      applePos = (200, 200), foodEaten = False, collision_gameOver = False,
      score = 10, length_counter = 3, gameOver = False, rng = sconst 3\<rparr>"

subsection \<open>Sessions and random sources\<close>

text \<open>
  What every state of a session satisfies: the body is not empty, the direction is one of
  the four, the two game-over flags agree, the food is off the body, the cells behind
  the head are distinct cells of the board, and while the game runs the head is a cell
  of the board off the rest of the body.
\<close>

definition wellFormed :: "game \<Rightarrow> bool" where
  "wellFormed g =
     (snakeBody g \<noteq> [] \<and> unitDirection (lastDirection g) \<and>
      collision_gameOver g = gameOver g \<and>
      applePos g \<notin> set (snakeBody g) \<and>
      distinct (tl (snakeBody g)) \<and> list_all boardCell (tl (snakeBody g)) \<and>
      (gameOver g \<or> (boardCell (snakeBody g ! 0) \<and> snakeBody g ! 0 \<notin> set (tl (snakeBody g)))))"

text \<open>
  How the counters of a session relate to the body: the score is ten times the number
  of apples counted, and the length counter follows the body, ahead of it by the growth
  still pending and behind it by the apple not yet counted.
\<close>

definition counted :: "game \<Rightarrow> bool" where
  "counted g =
     (score g = 10 * (length_counter g - 2) \<and>
      length_counter g + (if foodEaten g then 1 else 0) =
        int (length (snakeBody g)) + (if addSegment g then 1 else 0) \<and>
      (\<not> foodEaten g \<or> addSegment g) \<and> 2 \<le> length (snakeBody g))"

text \<open>
  \<open>GetRandomValue(min, max)\<close> answers within its bounds: \<open>randX\<close> is asked for within
  \<open>[0, rows - 1]\<close> and \<open>randY\<close> within \<open>[0, cols - 1]\<close>. A source is fair when every cell
  of the board is the draw of some round.
\<close>

definition randomSource :: "int stream \<Rightarrow> bool" where
  "randomSource rs =
     (\<forall>n. 0 \<le> rs !! (2 * n) \<and> rs !! (2 * n) \<le> rows - 1 \<and>
          0 \<le> rs !! (2 * n + 1) \<and> rs !! (2 * n + 1) \<le> cols - 1)"

definition fair :: "int stream \<Rightarrow> bool" where
  "fair rs =
     (\<forall>i j. 0 \<le> i \<and> i \<le> rows - 1 \<and> 0 \<le> j \<and> j \<le> cols - 1 \<longrightarrow> (\<exists>n. draw rs n = cell i j))"

text \<open>A fair source: it sweeps the board column by column, for ever.\<close>

definition sweep :: "int stream" where
  "sweep = smap (\<lambda>n. if even n then int (n div 32 mod 16) else int (n div 2 mod 16)) (fromN 0)"

section \<open>Properties\<close>

lemmas geometry = gridWidth_def gridHeight_def offset_def cellSize_def rows_def cols_def

lemma Vector2Equals_iff: "Vector2Equals p q = (p = q)"
  by (simp add: Vector2Equals_def prod_eq_iff)

subsection \<open>The food spawner\<close>


lemma shouldGenerateAgain_set: "shouldGenerateAgain body pos = (pos \<in> set body)"
  by (induction body) (auto simp: Vector2Equals_def prod_eq_iff)

lemma draw_0: "draw rs 0 = (shd rs * cellSize + offset, shd (stl rs) * cellSize + offset)"
  by (simp add: draw_def cell_def)

lemma draw_Suc: "draw rs (Suc k) = draw (stl (stl rs)) k"
  by (simp add: draw_def)

lemma generateRandomPos_accept:
  "draw rs 0 \<notin> set body \<Longrightarrow> generateRandomPos body rs = Some (draw rs 0, stl (stl rs))"
  by (subst generateRandomPos.simps) (simp add: draw_0 shouldGenerateAgain_set Let_def)

lemma generateRandomPos_reject:
  "draw rs 0 \<in> set body \<Longrightarrow> generateRandomPos body rs = generateRandomPos body (stl (stl rs))"
  by (subst generateRandomPos.simps) (simp add: draw_0 shouldGenerateAgain_set Let_def)

lemma generateRandomPos_first:
  "draw rs k \<notin> set body \<Longrightarrow> \<forall>j<k. draw rs j \<in> set body \<Longrightarrow>
   generateRandomPos body rs = Some (draw rs k, sdrop (2 * k + 2) rs)"
proof (induction k arbitrary: rs)
  case 0
  then show ?case by (simp add: generateRandomPos_accept)
next
  case (Suc k)
  have r: "draw rs 0 \<in> set body" using Suc.prems(2) by blast
  have "generateRandomPos body (stl (stl rs)) = Some (draw (stl (stl rs)) k, sdrop (2 * k + 2) (stl (stl rs)))"
  proof (rule Suc.IH)
    show "draw (stl (stl rs)) k \<notin> set body" using Suc.prems(1) by (simp add: draw_Suc)
    show "\<forall>j<k. draw (stl (stl rs)) j \<in> set body"
    proof (intro allI impI)
      fix j assume "j < k"
      then have "draw rs (Suc j) \<in> set body" using Suc.prems(2) by simp
      then show "draw (stl (stl rs)) j \<in> set body" by (simp add: draw_Suc)
    qed
  qed
  then show ?case using r by (simp add: generateRandomPos_reject draw_Suc)
qed

lemma generateRandomPos_Some:
  assumes "generateRandomPos body rs = Some y"
  shows "\<exists>k. fst y = draw rs k \<and> snd y = sdrop (2 * k + 2) rs \<and> fst y \<notin> set body"
proof (rule generateRandomPos.raw_induct
    [where P = "\<lambda>body rs y. \<exists>k. fst y = draw rs k \<and> snd y = sdrop (2 * k + 2) rs \<and> fst y \<notin> set body",
     OF _ assms])
  fix gen body rs y
  assume 1: "\<And>body rs y. gen body rs = Some y \<Longrightarrow>
      \<exists>k. fst y = draw rs k \<and> snd y = sdrop (2 * k + 2) rs \<and> fst y \<notin> set body"
    "(let randX = shd rs; randY = shd (stl rs);
          pos = (randX * cellSize + offset, randY * cellSize + offset)
      in if shouldGenerateAgain body pos then gen body (stl (stl rs))
         else Some (pos, stl (stl rs))) = Some y"
  show "\<exists>k. fst y = draw rs k \<and> snd y = sdrop (2 * k + 2) rs \<and> fst y \<notin> set body"
  proof (cases "draw rs 0 \<in> set body")
    case True
    then have "gen body (stl (stl rs)) = Some y"
      using 1(2) by (simp add: Let_def shouldGenerateAgain_set draw_0)
    then obtain k where k: "fst y = draw (stl (stl rs)) k"
      "snd y = sdrop (2 * k + 2) (stl (stl rs))" "fst y \<notin> set body"
      using 1(1) by blast
    have "fst y = draw rs (Suc k) \<and> snd y = sdrop (2 * Suc k + 2) rs \<and> fst y \<notin> set body"
      using k by (simp add: draw_Suc)
    then show ?thesis by blast
  next
    case False
    then have "y = (draw rs 0, stl (stl rs))"
      using 1(2) by (simp add: Let_def shouldGenerateAgain_set draw_0)
    then have "fst y = draw rs 0 \<and> snd y = sdrop (2 * 0 + 2) rs \<and> fst y \<notin> set body"
      using False by simp
    then show ?thesis by blast
  qed
qed

subsection \<open>The self-collision loop\<close>

lemma unat_succ16: "unat i < 65535 \<Longrightarrow> unat (i + 1 :: 16 word) = Suc (unat i)"
proof -
  assume a: "unat i < 65535"
  have "unat i + unat (1 :: 16 word) < 2 ^ LENGTH(16)" using a by simp
  then have "unat (i + 1) = unat i + unat (1 :: 16 word)" by (simp only: unat_add_lem)
  then show ?thesis by simp
qed

lemma selfCollisionLoop_drop:
  "length body < 65536 \<Longrightarrow> unat i \<le> length body \<Longrightarrow>
   selfCollisionLoop i h body = Some (h \<in> set (drop (unat i) body))"
proof (induction "length body - unat i" arbitrary: i)
  case 0
  then have "unat i = length body" by simp
  then show ?case by (subst selfCollisionLoop.simps) simp
next
  case (Suc n)
  then have lt: "unat i < length body" by simp
  then have s: "unat (i + 1) = Suc (unat i)" using Suc.prems(1) by (simp add: unat_succ16)
  have d: "drop (unat i) body = body ! unat i # drop (Suc (unat i)) body"
    using lt by (simp add: Cons_nth_drop_Suc)
  show ?case
  proof (cases "h = body ! unat i")
    case True
    then show ?thesis using lt d
      by (subst selfCollisionLoop.simps) (simp add: Vector2Equals_iff)
  next
    case False
    have "selfCollisionLoop (i + 1) h body = Some (h \<in> set (drop (unat (i + 1)) body))"
      using Suc.hyps(2) Suc.prems lt s by (intro Suc.hyps(1)) simp_all
    then show ?thesis using lt d False s
      by (subst selfCollisionLoop.simps) (simp add: Vector2Equals_iff)
  qed
qed

lemma selfCollisionLoop_tl:
  "length body < 65536 \<Longrightarrow> body \<noteq> [] \<Longrightarrow>
   selfCollisionLoop 1 h body = Some (h \<in> set (tl body))"
  using selfCollisionLoop_drop[of body 1 h] by (cases body) (simp_all add: drop_Suc)

text \<open>With 65536 cells or more the index wraps to 0 and meets the head itself.\<close>

lemma selfCollisionLoop_wrap:
  assumes big: "65536 \<le> length body"
  shows "selfCollisionLoop i (body ! 0) body = Some True"
proof (induction "(65536 - unat i) mod 65536" arbitrary: i rule: less_induct)
  case less
  have lt: "unat i < length body"
    using big unsigned_less[of i, where 'a = nat] by simp
  show ?case
  proof (cases "body ! 0 = body ! unat i")
    case True
    then show ?thesis using lt by (subst selfCollisionLoop.simps) (simp add: Vector2Equals_iff)
  next
    case False
    then have nz: "unat i \<noteq> 0" by (metis)
    have ub: "unat i < 65536" using unsigned_less[of i, where 'a = nat] by simp
    have "selfCollisionLoop (i + 1) (body ! 0) body = Some True"
    proof (cases "unat i < 65535")
      case True
      then have "unat (i + 1) = Suc (unat i)" by (rule unat_succ16)
      then have "(65536 - unat (i + 1)) mod 65536 < (65536 - unat i) mod 65536"
        using True nz by simp
      then show ?thesis by (rule less.hyps)
    next
      case False
      then have "unat i = 65535" using ub by simp
      moreover have "of_nat (unat i) = i" by simp
      ultimately have "i = of_nat 65535" by metis
      then have "i + 1 = 0" by simp
      moreover have "0 < length body" using big by linarith
      ultimately show ?thesis
        by (subst selfCollisionLoop.simps) (simp add: Vector2Equals_iff)
    qed
    then show ?thesis using lt False
      by (subst selfCollisionLoop.simps) (simp add: Vector2Equals_iff)
  qed
qed

lemma selfCollisionLoop_total:
  "body \<noteq> [] \<Longrightarrow> selfCollisionLoop 1 (body ! 0) body \<noteq> None"
  using selfCollisionLoop_wrap[of body 1] selfCollisionLoop_tl[of body "body ! 0"]
  by (cases "length body < 65536") simp_all

subsection \<open>The direction resolver\<close>

lemma resolve_spec_code:
  "unitDirection d \<Longrightarrow> resolve_spec k d =
     (if KEY_W k \<and> snd d \<noteq> 1 then (0, -1)
      else if KEY_S k \<and> snd d \<noteq> -1 then (0, 1)
      else if KEY_A k \<and> fst d \<noteq> 1 then (-1, 0)
      else if KEY_D k \<and> fst d \<noteq> -1 then (1, 0)
      else d)"
  unfolding unitDirection_def
  by (elim disjE) (simp_all add: resolve_spec_def candidates_def reverse_def)

lemma getMoveDirection_resolve:
  assumes "unitDirection (lastDirection g)"
  shows "getMoveDirection k g =
    (Vector2Scale (resolve_spec k (lastDirection g)) cellSize,
     g\<lparr>lastDirection := resolve_spec k (lastDirection g)\<rparr>)"
  by (simp add: getMoveDirection_def resolve_spec_code[OF assms] Let_def)

lemma resolve_spec_unit: "unitDirection d \<Longrightarrow> unitDirection (resolve_spec k d)"
  by (simp add: resolve_spec_code) (simp add: unitDirection_def)

lemma resolve_spec_only_reverse:
  assumes "unitDirection d" "\<forall>e. pressed k e \<longrightarrow> e = reverse d"
  shows "resolve_spec k d = d"
proof -
  have w: "KEY_W k \<Longrightarrow> reverse d = (0, -1)"
    using assms(2)[rule_format, of "(0, -1)"] by (simp add: pressed_def candidates_def)
  have s: "KEY_S k \<Longrightarrow> reverse d = (0, 1)"
    using assms(2)[rule_format, of "(0, 1)"] by (simp add: pressed_def candidates_def)
  have a: "KEY_A k \<Longrightarrow> reverse d = (-1, 0)"
    using assms(2)[rule_format, of "(-1, 0)"] by (simp add: pressed_def candidates_def)
  have r: "KEY_D k \<Longrightarrow> reverse d = (1, 0)"
    using assms(2)[rule_format, of "(1, 0)"] by (simp add: pressed_def candidates_def)
  show ?thesis
    unfolding resolve_spec_code[OF assms(1)]
    using w s a r by (auto simp: reverse_def prod_eq_iff)
qed


subsection \<open>What each step leaves alone\<close>

lemma getMoveDirection_fields [simp]:
  "snakeBody (snd (getMoveDirection k g)) = snakeBody g"
  "addSegment (snd (getMoveDirection k g)) = addSegment g"
  "interval (snd (getMoveDirection k g)) = interval g"
  "lastUpdateTime (snd (getMoveDirection k g)) = lastUpdateTime g"
  "applePos (snd (getMoveDirection k g)) = applePos g"
  "foodEaten (snd (getMoveDirection k g)) = foodEaten g"
  "collision_gameOver (snd (getMoveDirection k g)) = collision_gameOver g"
  "score (snd (getMoveDirection k g)) = score g"
  "length_counter (snd (getMoveDirection k g)) = length_counter g"
  "gameOver (snd (getMoveDirection k g)) = gameOver g"
  "rng (snd (getMoveDirection k g)) = rng g"
  "difficulty (snd (getMoveDirection k g)) = difficulty g"
  by (simp_all add: getMoveDirection_def Let_def)

lemma getMoveDirection_fst:
  "fst (getMoveDirection k g) = Vector2Scale (lastDirection (snd (getMoveDirection k g))) cellSize"
  by (simp add: getMoveDirection_def Let_def)

lemma moveSnake_fields [simp]:
  "interval (moveSnake d g) = interval g"
  "lastUpdateTime (moveSnake d g) = lastUpdateTime g"
  "lastDirection (moveSnake d g) = lastDirection g"
  "applePos (moveSnake d g) = applePos g"
  "foodEaten (moveSnake d g) = foodEaten g"
  "collision_gameOver (moveSnake d g) = collision_gameOver g"
  "score (moveSnake d g) = score g"
  "length_counter (moveSnake d g) = length_counter g"
  "gameOver (moveSnake d g) = gameOver g"
  "rng (moveSnake d g) = rng g"
  "difficulty (moveSnake d g) = difficulty g"
  "addSegment (moveSnake d g) = False"
  by (simp_all add: moveSnake_def Let_def)

lemma moveSnake_body:
  "snakeBody g \<noteq> [] \<Longrightarrow> snakeBody (moveSnake d g) =
     (if addSegment g then Vector2Add (snakeBody g ! 0) d # snakeBody g
      else Vector2Add (snakeBody g ! 0) d # butlast (snakeBody g))"
  by (simp add: moveSnake_def Let_def)

lemma Snake_Update_fields [simp]:
  "interval (Snake_Update k g) = interval g"
  "lastDirection (Snake_Update k g) = lastDirection (snd (getMoveDirection k g))"
  "applePos (Snake_Update k g) = applePos g"
  "foodEaten (Snake_Update k g) = foodEaten g"
  "collision_gameOver (Snake_Update k g) = collision_gameOver g"
  "score (Snake_Update k g) = score g"
  "length_counter (Snake_Update k g) = length_counter g"
  "gameOver (Snake_Update k g) = gameOver g"
  "rng (Snake_Update k g) = rng g"
  "difficulty (Snake_Update k g) = difficulty g"
  by (simp_all add: Snake_Update_def Let_def split_beta)

lemma Snake_Update_advance:
  assumes "GetTime k - lastUpdateTime g \<ge> interval g" "snakeBody g \<noteq> []"
  shows "snakeBody (Snake_Update k g) =
           Vector2Add (snakeBody g ! 0) (fst (getMoveDirection k g)) #
             (if addSegment g then snakeBody g else butlast (snakeBody g))"
    and "addSegment (Snake_Update k g) = False"
    and "lastUpdateTime (Snake_Update k g) = GetTime k"
  using assms by (simp_all add: Snake_Update_def Let_def split_beta moveSnake_body)

lemma Snake_Update_wait:
  assumes "\<not> GetTime k - lastUpdateTime g \<ge> interval g"
  shows "snakeBody (Snake_Update k g) = snakeBody g"
    and "addSegment (Snake_Update k g) = addSegment g"
    and "lastUpdateTime (Snake_Update k g) = lastUpdateTime g"
  using assms by (simp_all add: Snake_Update_def Let_def split_beta)

lemma ScoreHandler_Update_fields [simp]:
  "interval (ScoreHandler_Update g) = interval g"
  "lastDirection (ScoreHandler_Update g) = lastDirection g"
  "lastUpdateTime (ScoreHandler_Update g) = lastUpdateTime g"
  "applePos (ScoreHandler_Update g) = applePos g"
  "snakeBody (ScoreHandler_Update g) = snakeBody g"
  "addSegment (ScoreHandler_Update g) = addSegment g"
  "collision_gameOver (ScoreHandler_Update g) = collision_gameOver g"
  "gameOver (ScoreHandler_Update g) = gameOver g"
  "rng (ScoreHandler_Update g) = rng g"
  "difficulty (ScoreHandler_Update g) = difficulty g"
  "foodEaten (ScoreHandler_Update g) = False"
  "score (ScoreHandler_Update g) = (if foodEaten g then score g + 10 else score g)"
  "length_counter (ScoreHandler_Update g) =
     (if foodEaten g then length_counter g + 1 else length_counter g)"
  by (simp_all add: ScoreHandler_Update_def scoreMultiplier_def)

lemma borderCollisionHandle_eq:
  "borderCollisionHandle h g =
     g\<lparr>collision_gameOver := collision_gameOver g \<or> \<not> insideBoard h\<rparr>"
  by (auto simp: borderCollisionHandle_def insideBoard_def)

text \<open>What a completed collision evaluation has done.\<close>

lemma handle_Some:
  assumes "handle g = Some (over, g')"
  obtains g1 hit where
    "foodCollisionHandle g = Some g1"
    "selfCollisionLoop 1 (snakeBody g ! 0) (snakeBody g1) = Some hit"
    "g' = g1\<lparr>collision_gameOver :=
              collision_gameOver g1 \<or> \<not> insideBoard (snakeBody g ! 0) \<or> hit\<rparr>"
    "over = (collision_gameOver g1 \<or> \<not> insideBoard (snakeBody g ! 0) \<or> hit)"
  using assms
  by (auto simp: handle_def Let_def selfCollisionHandle_def borderCollisionHandle_eq
      split: option.splits if_splits)

lemma foodCollisionHandle_Some:
  assumes "foodCollisionHandle g = Some g1"
  shows "snakeBody g1 = snakeBody g" "score g1 = score g"
    "length_counter g1 = length_counter g" "lastDirection g1 = lastDirection g"
    "lastUpdateTime g1 = lastUpdateTime g" "interval g1 = interval g"
    "difficulty g1 = difficulty g" "gameOver g1 = gameOver g"
    "collision_gameOver g1 = collision_gameOver g"
    "foodEaten g1 = (foodEaten g \<or> snakeBody g ! 0 = applePos g)"
    "addSegment g1 = (addSegment g \<or> snakeBody g ! 0 = applePos g)"
    "snakeBody g ! 0 \<noteq> applePos g \<Longrightarrow> applePos g1 = applePos g \<and> rng g1 = rng g"
    "snakeBody g ! 0 = applePos g \<Longrightarrow> applePos g1 \<notin> set (snakeBody g)"
  using assms generateRandomPos_Some[of "snakeBody g" "rng g"]
  by (auto simp: foodCollisionHandle_def Vector2Equals_iff split: if_splits option.splits)

subsection \<open>The concrete session\<close>

lemma demo_start_constructed: "GameCore ''Medium'' demo_rng = Some demo_start"
  by (simp add: GameCore_def demo_rng_def demo_start_def initialBody_def geometry
      generateRandomPos_accept draw_0 setDifficulty_def getInterval_def Medium_def Easy_def Hard_def)

lemma demo_unrecognised_name:
  "GameCore ''Insane'' demo_rng = Some (demo_start\<lparr>difficulty := Easy, interval := 0.5\<rparr>)"
  by (simp add: GameCore_def demo_rng_def demo_start_def initialBody_def geometry
      generateRandomPos_accept draw_0 setDifficulty_def getInterval_def Medium_def Easy_def Hard_def)

lemma pressed_onlyD: "pressed (onlyD t) d = (d = (1, 0))"
  by (auto simp: pressed_def candidates_def onlyD_def)

subsection \<open>Ticks\<close>

lemmas tick_eval =
  GameCore_Update_def Snake_Update_def getMoveDirection_def moveSnake_def
  ScoreHandler_Update_def scoreMultiplier_def handle_def foodCollisionHandle_def
  borderCollisionHandle_def selfCollisionHandle_def selfCollisionLoop_tl
  generateRandomPos_accept draw_0 geometry Vector2Equals_iff Vector2Add_def Vector2Scale_def
  idle_def onlyW_def onlyD_def Let_def

lemma demo_tick1: "GameCore_Update (idle 0.5) demo_start = Some demo_ate"
  by (simp add: tick_eval demo_start_def demo_ate_def)

lemma demo_tick2: "GameCore_Update (idle 0.625) demo_ate = Some demo_scored"
  by (simp add: tick_eval demo_scored_def demo_ate_def)

lemma demo_tick3: "GameCore_Update (idle 0.75) demo_scored = Some demo_scored"
  by (simp add: tick_eval demo_scored_def)

lemma demo_tick4: "GameCore_Update (idle 1) demo_scored = Some demo_grown"
  by (simp add: tick_eval demo_scored_def demo_grown_def)

lemma demo_crash:
  "exec [idle 1.5, idle 2, idle 2.5, idle 3, idle 3.5] demo_grown = Some demo_over"
  by (simp add: tick_eval demo_grown_def demo_over_def)

lemma running_tick:
  assumes "\<not> gameOver g" "GameCore_Update k g = Some g'"
  shows "snakeBody g' = snakeBody (Snake_Update k g)"
    and "lastDirection g' = lastDirection (snd (getMoveDirection k g))"
    and "lastUpdateTime g' = lastUpdateTime (Snake_Update k g)"
    and "interval g' = interval g"
    and "difficulty g' = difficulty g"
    and "score g' = (if foodEaten g then score g + 10 else score g)"
    and "length_counter g' = (if foodEaten g then length_counter g + 1 else length_counter g)"
    and "foodEaten g' = (snakeBody g' ! 0 = applePos g)"
    and "addSegment g' = (addSegment (Snake_Update k g) \<or> snakeBody g' ! 0 = applePos g)"
    and "snakeBody g' ! 0 \<noteq> applePos g \<Longrightarrow> applePos g' = applePos g \<and> rng g' = rng g"
    and "snakeBody g' ! 0 = applePos g \<Longrightarrow> applePos g' \<notin> set (snakeBody g')"
    and "gameOver g' = collision_gameOver g'"
    and "\<exists>hit. selfCollisionLoop 1 (snakeBody g' ! 0) (snakeBody g') = Some hit \<and>
           collision_gameOver g' =
             (collision_gameOver g \<or> \<not> insideBoard (snakeBody g' ! 0) \<or> hit)"
proof -
  let ?m = "ScoreHandler_Update (Snake_Update k g)"
  obtain over g2 where h: "handle ?m = Some (over, g2)" and g': "g' = g2\<lparr>gameOver := over\<rparr>"
    using assms by (auto simp: GameCore_Update_def split: option.splits)
  obtain g1 hit where f: "foodCollisionHandle ?m = Some g1"
    and l: "selfCollisionLoop 1 (snakeBody ?m ! 0) (snakeBody g1) = Some hit"
    and g2: "g2 = g1\<lparr>collision_gameOver :=
              collision_gameOver g1 \<or> \<not> insideBoard (snakeBody ?m ! 0) \<or> hit\<rparr>"
    and over: "over = (collision_gameOver g1 \<or> \<not> insideBoard (snakeBody ?m ! 0) \<or> hit)"
    using handle_Some[OF h] by blast
  note F = foodCollisionHandle_Some[OF f]
  show "snakeBody g' = snakeBody (Snake_Update k g)" using g' g2 F(1) by simp
  then have b: "snakeBody g' = snakeBody ?m" by simp
  show "lastDirection g' = lastDirection (snd (getMoveDirection k g))" using g' g2 F(4) by simp
  show "lastUpdateTime g' = lastUpdateTime (Snake_Update k g)" using g' g2 F(5) by simp
  show "interval g' = interval g" using g' g2 F(6) by simp
  show "difficulty g' = difficulty g" using g' g2 F(7) by simp
  show "score g' = (if foodEaten g then score g + 10 else score g)" using g' g2 F(2) by simp
  show "length_counter g' = (if foodEaten g then length_counter g + 1 else length_counter g)"
    using g' g2 F(3) by simp
  show "foodEaten g' = (snakeBody g' ! 0 = applePos g)" using g' g2 F(10) b by simp
  show "addSegment g' = (addSegment (Snake_Update k g) \<or> snakeBody g' ! 0 = applePos g)"
    using g' g2 F(11) b by simp
  show "snakeBody g' ! 0 \<noteq> applePos g \<Longrightarrow> applePos g' = applePos g \<and> rng g' = rng g"
    using g' g2 F(12) b by simp
  show "snakeBody g' ! 0 = applePos g \<Longrightarrow> applePos g' \<notin> set (snakeBody g')"
    using g' g2 F(13) b by simp
  show "gameOver g' = collision_gameOver g'" using g' g2 over by simp
  have "collision_gameOver g' =
      (collision_gameOver g \<or> \<not> insideBoard (snakeBody g' ! 0) \<or> hit)"
    using g' g2 F(9) b by simp
  moreover have "selfCollisionLoop 1 (snakeBody g' ! 0) (snakeBody g') = Some hit"
    using l b F(1) by simp
  ultimately show "\<exists>hit. selfCollisionLoop 1 (snakeBody g' ! 0) (snakeBody g') = Some hit \<and>
           collision_gameOver g' =
             (collision_gameOver g \<or> \<not> insideBoard (snakeBody g' ! 0) \<or> hit)"
    by blast
qed

lemma exec_gameOver: "gameOver g \<Longrightarrow> exec ks g = Some g"
  by (induction ks) (simp_all add: GameCore_Update_def)

lemma demo_whole_crash:
  "exec [idle 0.5, idle 1, idle 1.5, idle 2, idle 2.5, idle 3, idle 3.5] demo_start =
     Some demo_over"
  by (simp add: tick_eval demo_start_def demo_over_def)

lemma demo_four: "exec [idle 0.5, idle 0.625, idle 0.75, idle 1] demo_start = Some demo_grown"
  by (simp add: tick_eval demo_start_def demo_grown_def)

lemma demo_turn_up: "GameCore_Update (onlyW 0.625) demo_ate = Some demo_up"
  by (simp add: tick_eval demo_ate_def demo_up_def)

lemma demo_turn_right: "GameCore_Update (onlyD 0.75) demo_up = Some demo_right"
  by (simp add: tick_eval demo_up_def demo_right_def)

lemma demo_reverse: "GameCore_Update (idle 1) demo_right = Some demo_reversed"
  by (simp add: tick_eval demo_right_def demo_reversed_def)

lemma Vector2_steps:
  "Vector2Add (Vector2Add h v) (Vector2Scale v n) = Vector2Add h (Vector2Scale v (n + 1))"
  "Vector2Add h (Vector2Scale v 0) = h"
  by (simp_all add: Vector2Add_def Vector2Scale_def algebra_simps)

lemma Snake_Update_nonempty: "snakeBody g \<noteq> [] \<Longrightarrow> snakeBody (Snake_Update k g) \<noteq> []"
  by (simp add: Snake_Update_def Let_def split_beta moveSnake_def)

lemma linear_motion:
  assumes "unitDirection d"
  shows "snakeBody g \<noteq> [] \<Longrightarrow> lastDirection g = d \<Longrightarrow>
    \<forall>k\<in>set ks. resolve_spec k d = d \<Longrightarrow> exec ks g = Some g' \<Longrightarrow> \<not> gameOver g' \<Longrightarrow>
    snakeBody g' ! 0 =
      Vector2Add (snakeBody g ! 0)
        (Vector2Scale (Vector2Scale d cellSize)
           (int (advances (interval g) (lastUpdateTime g) ks)))"
proof (induction ks arbitrary: g)
  case Nil
  then show ?case by (simp add: Vector2_steps)
next
  case (Cons k ks)
  have run: "\<not> gameOver g"
  proof
    assume "gameOver g"
    then have "exec (k # ks) g = Some g" by (rule exec_gameOver)
    then show False using Cons.prems(4,5) \<open>gameOver g\<close> by simp
  qed
  obtain g1 where t: "GameCore_Update k g = Some g1" and r: "exec ks g1 = Some g'"
    using Cons.prems(4) by (auto split: option.splits)
  note T = running_tick[OF run t]
  have u: "unitDirection (lastDirection g)" using assms Cons.prems(2) by simp
  have dir: "lastDirection (snd (getMoveDirection k g)) = d"
    using Cons.prems(2,3) by (simp add: getMoveDirection_resolve[OF u])
  have mv: "fst (getMoveDirection k g) = Vector2Scale d cellSize"
    using dir by (simp add: getMoveDirection_fst)
  have ne: "snakeBody g1 \<noteq> []" using T(1) Cons.prems(1) by (simp add: Snake_Update_nonempty)
  have ld: "lastDirection g1 = d" using T(2) dir by simp
  have ih: "snakeBody g' ! 0 =
      Vector2Add (snakeBody g1 ! 0)
        (Vector2Scale (Vector2Scale d cellSize)
           (int (advances (interval g1) (lastUpdateTime g1) ks)))"
    using Cons.IH[OF ne ld _ r Cons.prems(5)] Cons.prems(3) by simp
  show ?case
  proof (cases "GetTime k - lastUpdateTime g \<ge> interval g")
    case True
    have "snakeBody g1 ! 0 = Vector2Add (snakeBody g ! 0) (Vector2Scale d cellSize)"
      using T(1) Snake_Update_advance(1)[OF True Cons.prems(1)] mv by simp
    moreover have "lastUpdateTime g1 = GetTime k"
      using T(3) Snake_Update_advance(3)[OF True Cons.prems(1)] by simp
    ultimately show ?thesis using ih True T(4) by (simp add: Vector2_steps add.commute)
  next
    case False
    have "snakeBody g1 = snakeBody g" using T(1) Snake_Update_wait(1)[OF False] by simp
    moreover have "lastUpdateTime g1 = lastUpdateTime g"
      using T(3) Snake_Update_wait(3)[OF False] by simp
    ultimately show ?thesis using ih False T(4) by simp
  qed
qed

lemma generateRandomPos_terminates:
  assumes "\<exists>n. draw rs n \<notin> set body"
  shows "\<exists>n. generateRandomPos body rs = Some (draw rs n, sdrop (2 * n + 2) rs) \<and>
             draw rs n \<notin> set body"
proof -
  define m where "m = (LEAST n. draw rs n \<notin> set body)"
  have a: "draw rs m \<notin> set body" unfolding m_def using assms by (rule LeastI_ex)
  have b: "\<forall>j<m. draw rs j \<in> set body"
    unfolding m_def using not_less_Least by blast
  show ?thesis using generateRandomPos_first[OF a b] a by blast
qed

lemma handle_completes:
  assumes "snakeBody g \<noteq> []"
    and "snakeBody g ! 0 = applePos g \<Longrightarrow> \<exists>n. draw (rng g) n \<notin> set (snakeBody g)"
  shows "\<exists>over g'. handle g = Some (over, g')"
proof -
  obtain g1 where f: "foodCollisionHandle g = Some g1"
  proof (cases "snakeBody g ! 0 = applePos g")
    case True
    then obtain n where "generateRandomPos (snakeBody g) (rng g) =
        Some (draw (rng g) n, sdrop (2 * n + 2) (rng g))"
      using generateRandomPos_terminates[OF assms(2)] by blast
    then show ?thesis using that True by (simp add: foodCollisionHandle_def Vector2Equals_iff)
  next
    case False
    then show ?thesis using that by (simp add: foodCollisionHandle_def Vector2Equals_iff)
  qed
  have b: "snakeBody g1 = snakeBody g" using foodCollisionHandle_Some(1)[OF f] .
  obtain hit where "selfCollisionLoop 1 (snakeBody g ! 0) (snakeBody g) = Some hit"
    using selfCollisionLoop_total[OF assms(1)] by auto
  then show ?thesis using f b
    by (simp add: handle_def Let_def selfCollisionHandle_def borderCollisionHandle_eq)
qed

lemma tick_completes:
  assumes "snakeBody g \<noteq> []"
    and "snakeBody (Snake_Update k g) ! 0 = applePos g \<Longrightarrow>
         \<exists>n. draw (rng g) n \<notin> set (snakeBody (Snake_Update k g))"
  shows "\<exists>g'. GameCore_Update k g = Some g'"
proof (cases "gameOver g")
  case True
  then show ?thesis by (simp add: GameCore_Update_def)
next
  case False
  have "\<exists>over g'. handle (ScoreHandler_Update (Snake_Update k g)) = Some (over, g')"
    using assms by (intro handle_completes) (simp_all add: Snake_Update_nonempty)
  then show ?thesis using False by (auto simp: GameCore_Update_def)
qed

lemma waiting_tick:
  assumes "calm g" "\<not> GetTime w - lastUpdateTime g \<ge> interval g" "GameCore_Update w g = Some g'"
  shows "calm g'" "snakeBody g' = snakeBody g" "addSegment g' = addSegment g"
    "lastUpdateTime g' = lastUpdateTime g" "interval g' = interval g"
    "\<not> foodEaten g'"
    "length_counter g' = (if foodEaten g then length_counter g + 1 else length_counter g)"
proof -
  have run: "\<not> gameOver g" using assms(1) by (simp add: calm_def)
  note T = running_tick[OF run assms(3)]
  note W = Snake_Update_wait[OF assms(2)]
  show b: "snakeBody g' = snakeBody g" using T(1) W(1) by simp
  have ne: "snakeBody g' ! 0 \<noteq> applePos g" using b assms(1) by (simp add: calm_def)
  show "addSegment g' = addSegment g" using T(9) W(2) ne by simp
  show "lastUpdateTime g' = lastUpdateTime g" using T(3) W(3) by simp
  show "interval g' = interval g" using T(4) .
  show "\<not> foodEaten g'" using T(8) ne by simp
  show "length_counter g' = (if foodEaten g then length_counter g + 1 else length_counter g)"
    using T(7) .
  have "\<not> collision_gameOver g'" using T(13) b assms(1) by (auto simp: calm_def)
  then show "calm g'" using T(12) T(10)[OF ne] b assms(1) by (simp add: calm_def)
qed

lemma waiting:
  "calm g \<Longrightarrow> \<forall>w\<in>set ws. \<not> GetTime w - lastUpdateTime g \<ge> interval g \<Longrightarrow>
   exec ws g = Some g' \<Longrightarrow>
   calm g' \<and> snakeBody g' = snakeBody g \<and> addSegment g' = addSegment g \<and>
   lastUpdateTime g' = lastUpdateTime g \<and> interval g' = interval g \<and>
   foodEaten g' = (foodEaten g \<and> ws = []) \<and>
   length_counter g' = (if foodEaten g \<and> ws \<noteq> [] then length_counter g + 1 else length_counter g)"
proof (induction ws arbitrary: g)
  case Nil
  then show ?case by simp
next
  case (Cons w ws)
  obtain g1 where t: "GameCore_Update w g = Some g1" and r: "exec ws g1 = Some g'"
    using Cons.prems(3) by (auto split: option.splits)
  have nw: "\<not> GetTime w - lastUpdateTime g \<ge> interval g" using Cons.prems(2) by simp
  note W = waiting_tick[OF Cons.prems(1) nw t]
  have "\<forall>w\<in>set ws. \<not> GetTime w - lastUpdateTime g1 \<ge> interval g1"
    using Cons.prems(2) W(4,5) by simp
  from Cons.IH[OF W(1) this r] show ?case using W by simp
qed

lemma tick_calm:
  assumes "\<not> gameOver g" "GameCore_Update k g = Some g'" "\<not> gameOver g'"
    "applePos g' \<notin> set (snakeBody g')" "snakeBody g' \<noteq> []"
  shows "calm g'"
proof -
  note T = running_tick[OF assms(1,2)]
  have "applePos g' \<noteq> snakeBody g' ! 0" using assms(4,5) by (metis nth_mem length_greater_0_conv)
  then show ?thesis using T(12,13) assms(3) by (auto simp: calm_def)
qed

subsection \<open>Invariants of a session, random sources\<close>

lemma aligned_index:
  fixes x :: int
  assumes "50 \<le> x" "x < 850" "(x - 50) mod 50 = 0"
  shows "x = (x - 50) div 50 * 50 + 50 \<and> 0 \<le> (x - 50) div 50 \<and> (x - 50) div 50 \<le> 15"
proof -
  have e: "x - 50 = (x - 50) div 50 * 50"
    using div_mult_mod_eq[of "x - 50" 50] assms(3) by simp
  then have "0 \<le> (x - 50) div 50 * 50" "(x - 50) div 50 * 50 < 800" using assms(1,2) by linarith+
  then have "0 \<le> (x - 50) div 50" "(x - 50) div 50 \<le> 15" by linarith+
  then show ?thesis using e by linarith
qed

lemma boardCell_cell:
  assumes "boardCell p"
  shows "\<exists>i\<in>{0..15}. \<exists>j\<in>{0..15}. p = cell i j"
proof -
  let ?i = "(fst p - 50) div 50" and ?j = "(snd p - 50) div 50"
  have a: "50 \<le> fst p" "fst p < 850" "50 \<le> snd p" "snd p < 850"
    "(fst p - 50) mod 50 = 0" "(snd p - 50) mod 50 = 0"
    using assms by (simp_all add: boardCell_def insideBoard_def geometry)
  note x = aligned_index[OF a(1,2,5)] and y = aligned_index[OF a(3,4,6)]
  have "p = cell ?i ?j" using x y by (simp add: cell_def geometry prod_eq_iff)
  moreover have "?i \<in> {0..15}" "?j \<in> {0..15}" using x y by simp_all
  ultimately show ?thesis by blast
qed

lemma boardCell_length:
  assumes "distinct xs" "list_all boardCell xs"
  shows "length xs \<le> 256"
proof -
  let ?S = "(\<lambda>(i, j). cell i j) ` ({0..15} \<times> {0..15})"
  have "set xs \<subseteq> ?S"
  proof
    fix p assume "p \<in> set xs"
    then have "boardCell p" using assms(2) by (simp add: list_all_iff)
    then obtain i j where "i \<in> {0..15}" "j \<in> {0..15}" "p = cell i j"
      using boardCell_cell by blast
    then show "p \<in> ?S" by blast
  qed
  then have "card (set xs) \<le> card ?S" by (intro card_mono) simp_all
  also have "\<dots> \<le> card ({0..15::int} \<times> {0..15::int})" by (rule card_image_le) simp
  also have "\<dots> = 256" by simp
  finally show ?thesis using assms(1) by (simp add: distinct_card)
qed

lemma boardCell_step:
  assumes "boardCell p" "insideBoard (Vector2Add p (Vector2Scale d cellSize))"
  shows "boardCell (Vector2Add p (Vector2Scale d cellSize))"
proof -
  have al: "(x + e * 50 - 50) mod 50 = 0" if "(x - 50) mod 50 = 0" for x e :: int
    using that by presburger
  have a: "(fst p - 50) mod 50 = 0" "(snd p - 50) mod 50 = 0"
    using assms(1) by (simp_all add: boardCell_def geometry)
  have "(fst p + fst d * 50 - 50) mod 50 = 0" "(snd p + snd d * 50 - 50) mod 50 = 0"
    using al[OF a(1)] al[OF a(2)] by simp_all
  then show ?thesis
    using assms(2) by (simp add: boardCell_def Vector2Add_def Vector2Scale_def geometry)
qed

lemma constructed_wellFormed:
  assumes "GameCore sDifficulty rs = Some g"
  shows "wellFormed g"
proof -
  obtain y where y: "generateRandomPos initialBody rs = Some y"
    and g: "snakeBody g = initialBody" "lastDirection g = (-1, 0)" "\<not> collision_gameOver g"
      "\<not> gameOver g" "applePos g = fst y"
    using assms by (auto simp: GameCore_def split: option.splits)
  have "fst y \<notin> set initialBody" using generateRandomPos_Some[OF y] by blast
  then show ?thesis
    using g by (simp add: wellFormed_def initialBody_def unitDirection_def boardCell_def
        insideBoard_def geometry)
qed

lemma tick_wellFormed:
  assumes wf: "wellFormed g" and t: "GameCore_Update k g = Some g'"
  shows "wellFormed g'"
proof (cases "gameOver g")
  case True
  then show ?thesis using wf t by (simp add: GameCore_Update_def)
next
  case False
  note T = running_tick[OF False t]
  let ?b = "snakeBody g" and ?b' = "snakeBody g'"
  have ne: "?b \<noteq> []" and u: "unitDirection (lastDirection g)"
    and cg: "\<not> collision_gameOver g" and ap: "applePos g \<notin> set ?b"
    and dt: "distinct (tl ?b)" and bt: "list_all boardCell (tl ?b)"
    and bh: "boardCell (?b ! 0)" and ht: "?b ! 0 \<notin> set (tl ?b)"
    using wf False by (simp_all add: wellFormed_def)
  have b_eq: "?b = ?b ! 0 # tl ?b" using ne by (cases ?b) simp_all
  have db: "distinct ?b" using dt ht by (subst b_eq) simp
  have bb: "list_all boardCell ?b" using bt bh by (subst b_eq) simp
  have u': "unitDirection (lastDirection g')"
    using T(2) u by (simp add: getMoveDirection_resolve resolve_spec_unit)
  have ne': "?b' \<noteq> []" using T(1) ne by (simp add: Snake_Update_nonempty)
  have rest: "distinct (tl ?b') \<and> list_all boardCell (tl ?b') \<and> set (tl ?b') \<subseteq> set ?b \<and>
      (boardCell (?b' ! 0) \<or> \<not> insideBoard (?b' ! 0)) \<and>
      (?b' ! 0 \<in> set (tl ?b') \<or> ?b' ! 0 \<notin> set (tl ?b') \<and> ?b' ! 0 = ?b' ! 0)"
  proof (cases "GetTime k - lastUpdateTime g \<ge> interval g")
    case True
    have b': "?b' = Vector2Add (?b ! 0) (fst (getMoveDirection k g)) #
        (if addSegment g then ?b else butlast ?b)"
      using T(1) Snake_Update_advance(1)[OF True ne] by simp
    have "distinct (butlast ?b)" using db by (rule distinct_butlast)
    moreover have "list_all boardCell (butlast ?b)"
      using bb by (auto simp: list_all_iff dest: in_set_butlastD)
    moreover have "set (butlast ?b) \<subseteq> set ?b" by (auto dest: in_set_butlastD)
    moreover have "boardCell (?b' ! 0) \<or> \<not> insideBoard (?b' ! 0)"
      using b' boardCell_step[OF bh, of "lastDirection (snd (getMoveDirection k g))"]
      by (auto simp: getMoveDirection_fst)
    ultimately show ?thesis using b' db bb by auto
  next
    case False
    have "?b' = ?b" using T(1) Snake_Update_wait(1)[OF False] by simp
    then show ?thesis using dt bt bh b_eq by (auto simp: set_ConsD) (metis list.set_sel(2) ne)
  qed
  have len: "length ?b' < 65536"
  proof -
    have "length (tl ?b') \<le> 256" using rest by (intro boardCell_length) simp_all
    then show ?thesis by simp
  qed
  obtain hit where hit: "selfCollisionLoop 1 (?b' ! 0) ?b' = Some hit"
    and cg': "collision_gameOver g' = (collision_gameOver g \<or> \<not> insideBoard (?b' ! 0) \<or> hit)"
    using T(13) by blast
  have hit_eq: "hit = (?b' ! 0 \<in> set (tl ?b'))"
    using hit selfCollisionLoop_tl[OF len ne'] by simp
  have over: "gameOver g' = (\<not> insideBoard (?b' ! 0) \<or> ?b' ! 0 \<in> set (tl ?b'))"
    using T(12) cg' cg hit_eq by simp
  have b'_eq: "?b' = ?b' ! 0 # tl ?b'" using ne' by (cases ?b') simp_all
  have apple: "applePos g' \<notin> set ?b'"
  proof (cases "?b' ! 0 = applePos g")
    case True
    then show ?thesis by (rule T(11))
  next
    case False
    then have "applePos g' = applePos g" using T(10) by simp
    moreover have "applePos g \<notin> set (tl ?b')" using rest ap by blast
    ultimately show ?thesis using False by (subst b'_eq) auto
  qed
  show ?thesis
    using ne' u' T(12) apple rest over by (auto simp: wellFormed_def)
qed

lemma exec_wellFormed: "wellFormed g \<Longrightarrow> exec ks g = Some g' \<Longrightarrow> wellFormed g'"
proof (induction ks arbitrary: g)
  case Nil
  then show ?case by simp
next
  case (Cons k ks)
  then obtain g1 where "GameCore_Update k g = Some g1" "exec ks g1 = Some g'"
    by (auto split: option.splits)
  then show ?case using Cons.IH tick_wellFormed[OF Cons.prems(1)] by blast
qed

lemma tl_index: "xs \<noteq> [] \<Longrightarrow> (h \<in> set (tl xs)) = (\<exists>i. 1 \<le> i \<and> i < length xs \<and> xs ! i = h)"
proof (cases xs)
  case Nil
  assume "xs \<noteq> []" then show ?thesis using Nil by simp
next
  case (Cons x t)
  have "(h \<in> set t) = (\<exists>i. 1 \<le> i \<and> i < Suc (length t) \<and> (x # t) ! i = h)"
  proof
    assume "h \<in> set t"
    then obtain n where "n < length t" "t ! n = h" by (auto simp: in_set_conv_nth)
    then have "1 \<le> Suc n \<and> Suc n < Suc (length t) \<and> (x # t) ! Suc n = h" by simp
    then show "\<exists>i. 1 \<le> i \<and> i < Suc (length t) \<and> (x # t) ! i = h" by blast
  next
    assume "\<exists>i. 1 \<le> i \<and> i < Suc (length t) \<and> (x # t) ! i = h"
    then obtain i where i: "1 \<le> i" "i < Suc (length t)" "(x # t) ! i = h" by blast
    then obtain n where "i = Suc n" by (cases i) simp_all
    then show "h \<in> set t" using i by auto
  qed
  then show ?thesis using Cons by simp
qed

lemma fromN_snth: "fromN m !! n = m + n"
  by (induction n arbitrary: m) simp_all

lemma sweep_snth:
  "sweep !! n = (if even n then int (n div 32 mod 16) else int (n div 2 mod 16))"
  unfolding sweep_def snth_smap fromN_snth by simp

lemma draw_sweep: "draw sweep n = cell (int (n div 16 mod 16)) (int (n mod 16))"
proof -
  have "(2 * n) div 32 = n div 16" by presburger
  moreover have "(2 * n + 1) div 2 = n" by presburger
  ultimately have "sweep !! (2 * n) = int (n div 16 mod 16)" "sweep !! (2 * n + 1) = int (n mod 16)"
    by (simp_all only: sweep_snth) simp_all
  then show ?thesis by (simp only: draw_def)
qed

lemma randomSource_sweep: "randomSource sweep"
proof -
  have r: "0 \<le> sweep !! m \<and> sweep !! m \<le> 15" for m
  proof -
    have "m div 32 mod 16 < 16" "m div 2 mod 16 < 16" by simp_all
    then have "m div 32 mod 16 \<le> 15" "m div 2 mod 16 \<le> 15" by linarith+
    then show ?thesis by (simp only: sweep_snth) simp
  qed
  show ?thesis
    unfolding randomSource_def
  proof (intro allI)
    fix n
    show "0 \<le> sweep !! (2 * n) \<and> sweep !! (2 * n) \<le> rows - 1 \<and>
          0 \<le> sweep !! (2 * n + 1) \<and> sweep !! (2 * n + 1) \<le> cols - 1"
      using r[of "2 * n"] r[of "2 * n + 1"] by (simp add: geometry)
  qed
qed

lemma fair_sweep: "fair sweep"
  unfolding fair_def
proof (intro allI impI)
  fix i j :: int
  assume a: "0 \<le> i \<and> i \<le> rows - 1 \<and> 0 \<le> j \<and> j \<le> cols - 1"
  then have b: "0 \<le> i" "i \<le> 15" "0 \<le> j" "j \<le> 15" by (simp_all add: geometry)
  let ?n = "nat (16 * i + j)"
  have "int (?n div 16 mod 16) = i" "int (?n mod 16) = j"
    using b by (simp_all add: zdiv_int zmod_int)
  then have "draw sweep ?n = cell i j" by (simp only: draw_sweep)
  then show "\<exists>n. draw sweep n = cell i j" by blast
qed

lemma boardCell_draw:
  assumes "randomSource rs"
  shows "boardCell (draw rs n)"
proof -
  have "0 \<le> rs !! (2 * n) \<and> rs !! (2 * n) \<le> 15 \<and> 0 \<le> rs !! (2 * n + 1) \<and> rs !! (2 * n + 1) \<le> 15"
    using assms[unfolded randomSource_def, rule_format, of n] by (simp add: geometry)
  then show ?thesis
    by (simp add: draw_def cell_def boardCell_def insideBoard_def geometry)
qed

lemma demo_to_edge:
  "exec [idle 0.5, idle 1, idle 1.5, idle 2, idle 2.5, idle 3] demo_start = Some demo_edge"
  by (simp add: tick_eval demo_start_def demo_edge_def)

lemma demo_edge_crash: "GameCore_Update (idle 3.5) demo_edge = Some demo_over"
  by (simp add: tick_eval demo_edge_def demo_over_def)

lemma demo_to_right: "exec [idle 0.5, onlyW 0.625, onlyD 0.75] demo_start = Some demo_right"
  using demo_tick1 demo_turn_up demo_turn_right by simp

lemma demo_handle:
  "handle (ScoreHandler_Update (Snake_Update (idle 0.5) demo_start)) = Some (False, demo_ate)"
  by (simp add: tick_eval demo_start_def demo_ate_def)

text \<open>
  The counters stay small: \<open>int score\<close> and \<open>int length\<close> never come near the range
  of a 32-bit integer, and the body never reaches the 65536 cells at which the index of
  the self-collision loop would wrap.
\<close>

lemma constructed_counted:
  assumes "GameCore sDifficulty rs = Some g"
  shows "counted g"
  using assms by (auto simp: GameCore_def counted_def initialBody_def split: option.splits)

lemma tick_counted:
  assumes wf: "wellFormed g" and c: "counted g" and t: "GameCore_Update k g = Some g'"
  shows "counted g'"
proof (cases "gameOver g")
  case True
  then show ?thesis using c t by (simp add: GameCore_Update_def)
next
  case False
  note T = running_tick[OF False t]
  have ne: "snakeBody g \<noteq> []" and ap: "applePos g \<notin> set (snakeBody g)"
    using wf by (simp_all add: wellFormed_def)
  have hd: "snakeBody g ! 0 \<noteq> applePos g" using ne ap by (metis nth_mem length_greater_0_conv)
  have two: "2 \<le> length (snakeBody g)" using c by (simp add: counted_def)
  show ?thesis
  proof (cases "GetTime k - lastUpdateTime g \<ge> interval g")
    case True
    note A = Snake_Update_advance[OF True ne]
    have "length (snakeBody g') = length (snakeBody g) + (if addSegment g then 1 else 0)"
      using T(1) A(1) two by (cases "snakeBody g") simp_all
    then show ?thesis using c T(6,7,8,9) A(2) by (auto simp: counted_def)
  next
    case False
    note W = Snake_Update_wait[OF False]
    have "snakeBody g' = snakeBody g" using T(1) W(1) by simp
    then show ?thesis using c T(6,7,8,9) W(2) hd by (auto simp: counted_def)
  qed
qed

lemma exec_session:
  "wellFormed g \<Longrightarrow> counted g \<Longrightarrow> exec ks g = Some g' \<Longrightarrow> wellFormed g' \<and> counted g'"
proof (induction ks arbitrary: g)
  case Nil
  then show ?case by simp
next
  case (Cons k ks)
  then obtain g1 where t: "GameCore_Update k g = Some g1" and r: "exec ks g1 = Some g'"
    by (auto split: option.splits)
  show ?case
    using Cons.IH[OF tick_wellFormed[OF Cons.prems(1) t] tick_counted[OF Cons.prems(1,2) t] r] .
qed

lemma session_counters:
  assumes "GameCore sDifficulty rs = Some g0" "exec ks g0 = Some g"
  shows "score g = 10 * (length_counter g - 2) \<and> 2 \<le> length_counter g \<and>
         length_counter g \<le> 258 \<and> 2 \<le> length (snakeBody g) \<and> length (snakeBody g) \<le> 257"
proof -
  have s: "wellFormed g \<and> counted g"
    using exec_session[OF constructed_wellFormed[OF assms(1)] constructed_counted[OF assms(1)] assms(2)] .
  then have "length (tl (snakeBody g)) \<le> 256"
    by (intro boardCell_length) (simp_all add: wellFormed_def)
  then have "length (snakeBody g) \<le> 257" by simp
  then show ?thesis using s by (auto simp: counted_def split: if_splits)
qed

section \<open>The claims\<close>

text \<open>
  C8. The interval lookup maps Easy to 0.5, Medium to 0.3 and Hard to 0.1 seconds, and
  every other difficulty value to the fallback 0.6 seconds. Independently, the parsing
  of the difficulty name maps every string other than "Easy", "Medium" and "Hard" to
  Easy, so that a session constructed from such a name runs at the Easy interval.
\<close>

theorem interval_lookup_and_name_parsing:
  "getInterval Easy = 0.5 \<and> getInterval Medium = 0.3 \<and> getInterval Hard = 0.1 \<and>
   (d \<noteq> Easy \<and> d \<noteq> Medium \<and> d \<noteq> Hard \<longrightarrow> getInterval d = 0.6) \<and>
   (s \<noteq> ''Easy'' \<and> s \<noteq> ''Medium'' \<and> s \<noteq> ''Hard'' \<longrightarrow>
      setDifficulty s = Easy \<and>
      (\<forall>rs g. GameCore s rs = Some g \<longrightarrow> difficulty g = Easy \<and> interval g = 0.5))"
  by (auto simp: getInterval_def setDifficulty_def Easy_def Medium_def Hard_def GameCore_def
      split: option.splits)

theorem interval_lookup_and_name_parsing_witness:
  "(7 :: Difficulty) \<noteq> Easy \<and> 7 \<noteq> Medium \<and> 7 \<noteq> Hard \<and> getInterval 7 = 0.6 \<and>
   ''Insane'' \<noteq> ''Easy'' \<and> ''Insane'' \<noteq> ''Medium'' \<and> ''Insane'' \<noteq> ''Hard'' \<and>
   setDifficulty ''Insane'' = Easy \<and>
   GameCore ''Insane'' demo_rng = Some (demo_start\<lparr>difficulty := Easy, interval := 0.5\<rparr>) \<and>
   interval (demo_start\<lparr>difficulty := Easy, interval := 0.5\<rparr>) = 0.5"
proof -
  have d: "(7 :: Difficulty) \<noteq> Easy \<and> 7 \<noteq> Medium \<and> 7 \<noteq> Hard"
    by (simp add: Easy_def Medium_def Hard_def)
  have s: "''Insane'' \<noteq> ''Easy'' \<and> ''Insane'' \<noteq> ''Medium'' \<and> ''Insane'' \<noteq> ''Hard''"
    by simp
  show ?thesis
    using interval_lookup_and_name_parsing[of 7 "''Insane''"] d s demo_unrecognised_name
    by blast
qed

text \<open>
  C6. For every previous direction (one of the four) and every combination of pressed
  keys, \<open>getMoveDirection\<close> stores and returns, scaled by the cell size, the direction
  that the specification's resolver yields: the first pressed candidate in the order Up,
  Down, Left, Right that is not the exact reverse of the previous direction, and the
  previous direction when there is none. In particular, when no key other than the one
  of the exact opposite direction is down, the direction stays as it was.
\<close>

theorem direction_resolver_refines_spec:
  assumes "unitDirection (lastDirection g)"
  shows "lastDirection (snd (getMoveDirection k g)) = resolve_spec k (lastDirection g) \<and>
     fst (getMoveDirection k g) = Vector2Scale (resolve_spec k (lastDirection g)) cellSize \<and>
     ((\<forall>d. pressed k d \<longrightarrow> d = reverse (lastDirection g)) \<longrightarrow>
        lastDirection (snd (getMoveDirection k g)) = lastDirection g)"
  using resolve_spec_only_reverse[OF assms, of k]
  by (simp add: getMoveDirection_resolve[OF assms])

theorem direction_resolver_refines_spec_witness:
  "unitDirection (lastDirection demo_start) \<and>
   {d. pressed (onlyD 0.25) d} = {reverse (lastDirection demo_start)} \<and>
   lastDirection (snd (getMoveDirection (onlyD 0.25) demo_start)) = (-1, 0) \<and>
   fst (getMoveDirection (onlyD 0.25) demo_start) = (-50, 0) \<and>
   resolve_spec (onlyW 0.25) (lastDirection demo_start) = (0, -1) \<and>
   fst (getMoveDirection (onlyW 0.25) demo_start) = (0, -50)"
proof -
  have u: "unitDirection (lastDirection demo_start)"
    by (simp add: unitDirection_def demo_start_def)
  have p: "\<forall>d. pressed (onlyD 0.25) d \<longrightarrow> d = reverse (lastDirection demo_start)"
    by (simp add: pressed_onlyD reverse_def demo_start_def)
  have l: "lastDirection demo_start = (-1, 0)" by (simp add: demo_start_def)
  have w: "resolve_spec (onlyW 0.25) (-1, 0) = (0, -1)"
    by (simp add: resolve_spec_def candidates_def onlyW_def reverse_def)
  have a: "lastDirection (snd (getMoveDirection (onlyD 0.25) demo_start)) = lastDirection demo_start"
    and b: "fst (getMoveDirection (onlyD 0.25) demo_start) =
      Vector2Scale (resolve_spec (onlyD 0.25) (lastDirection demo_start)) cellSize"
    and c: "lastDirection (snd (getMoveDirection (onlyD 0.25) demo_start)) =
      resolve_spec (onlyD 0.25) (lastDirection demo_start)"
    using direction_resolver_refines_spec[OF u, of "onlyD 0.25"] p by blast+
  have e: "fst (getMoveDirection (onlyW 0.25) demo_start) =
      Vector2Scale (resolve_spec (onlyW 0.25) (lastDirection demo_start)) cellSize"
    using direction_resolver_refines_spec[OF u, of "onlyW 0.25"] by blast
  have "fst (getMoveDirection (onlyD 0.25) demo_start) = (-50, 0)"
    using a b c l by (simp add: Vector2Scale_def cellSize_def)
  moreover have "fst (getMoveDirection (onlyW 0.25) demo_start) = (0, -50)"
    using e l w by (simp add: Vector2Scale_def cellSize_def)
  moreover have "{d. pressed (onlyD 0.25) d} = {reverse (lastDirection demo_start)}"
    by (simp add: pressed_onlyD reverse_def demo_start_def)
  ultimately show ?thesis using u a l w by simp
qed

text \<open>
  C3. The game-over flag is a one-way latch: from a state in which it is set, a tick and
  every run of ticks return the state as it is, so the snake body, the direction, the
  food position, the score and the length stay unchanged and the flag stays set.
\<close>

theorem game_over_latch:
  assumes "gameOver g"
  shows "GameCore_Update k g = Some g \<and> exec ks g = Some g \<and>
    (\<exists>g'. exec ks g = Some g' \<and> gameOver g' \<and> snakeBody g' = snakeBody g \<and>
        lastDirection g' = lastDirection g \<and> applePos g' = applePos g \<and>
        score g' = score g \<and> length_counter g' = length_counter g)"
  using assms by (simp add: exec_gameOver) (simp add: GameCore_Update_def)

theorem game_over_latch_witness:
  "GameCore ''Medium'' demo_rng = Some demo_start \<and>
   exec [idle 0.5, idle 1, idle 1.5, idle 2, idle 2.5, idle 3, idle 3.5] demo_start =
     Some demo_over \<and>
   gameOver demo_over \<and>
   GameCore_Update (onlyW 4) demo_over = Some demo_over \<and>
   exec [onlyW 4, onlyD 4.5, idle 5] demo_over = Some demo_over"
proof -
  have o: "gameOver demo_over" by (simp add: demo_over_def)
  show ?thesis
    using game_over_latch[OF o, of "onlyW 4" "[onlyW 4, onlyD 4.5, idle 5]"]
      demo_start_constructed demo_whole_crash o
    by blast
qed

text \<open>
  C1, as amended. In a tick performed while the game is running, the score update runs
  before the collision evaluation. A food-eaten event therefore leaves score and length
  unchanged in the tick that raises it, increases the score by exactly 10 and the length
  by exactly 1 in the next running tick, and a further tick without a new food-eaten
  event increases neither counter.
\<close>

theorem score_follows_collision_by_one_tick:
  assumes "\<not> gameOver g0" "\<not> foodEaten g0"
    and "GameCore_Update k1 g0 = Some g1" "snakeBody g1 ! 0 = applePos g0"
    and "\<not> gameOver g1"
    and "GameCore_Update k2 g1 = Some g2" "snakeBody g2 ! 0 \<noteq> applePos g1"
    and "GameCore_Update k3 g2 = Some g3"
  shows "foodEaten g1 \<and> score g1 = score g0 \<and> length_counter g1 = length_counter g0 \<and>
     score g2 = score g0 + 10 \<and> length_counter g2 = length_counter g0 + 1 \<and>
     \<not> foodEaten g2 \<and> score g3 = score g2 \<and> length_counter g3 = length_counter g2"
proof -
  note t1 = running_tick[OF assms(1) assms(3)]
  note t2 = running_tick[OF assms(5) assms(6)]
  have e1: "foodEaten g1" using t1(8) assms(4) by simp
  have e2: "\<not> foodEaten g2" using t2(8) assms(7) by simp
  have "score g3 = score g2 \<and> length_counter g3 = length_counter g2"
  proof (cases "gameOver g2")
    case True
    then show ?thesis using assms(8) by (simp add: GameCore_Update_def)
  next
    case False
    then show ?thesis using running_tick(6,7)[OF False assms(8)] e2 by simp
  qed
  then show ?thesis using t1(6,7) t2(6,7) e1 e2 assms(2) by simp
qed

theorem score_follows_collision_by_one_tick_witness:
  "\<not> gameOver demo_start \<and> \<not> foodEaten demo_start \<and>
   GameCore_Update (idle 0.5) demo_start = Some demo_ate \<and>
   snakeBody demo_ate ! 0 = applePos demo_start \<and> \<not> gameOver demo_ate \<and>
   GameCore_Update (idle 0.625) demo_ate = Some demo_scored \<and>
   snakeBody demo_scored ! 0 \<noteq> applePos demo_ate \<and>
   GameCore_Update (idle 0.75) demo_scored = Some demo_scored \<and>
   foodEaten demo_ate \<and> score demo_ate = 0 \<and> length_counter demo_ate = 2 \<and>
   score demo_scored = 10 \<and> length_counter demo_scored = 3"
proof -
  have a: "\<not> gameOver demo_start" "\<not> foodEaten demo_start" by (simp_all add: demo_start_def)
  have b: "snakeBody demo_ate ! 0 = applePos demo_start" "\<not> gameOver demo_ate"
    by (simp_all add: demo_start_def demo_ate_def)
  have c: "snakeBody demo_scored ! 0 \<noteq> applePos demo_ate"
    by (simp add: demo_scored_def demo_ate_def)
  have s: "score demo_start = 0" "length_counter demo_start = 2" by (simp_all add: demo_start_def)
  show ?thesis
    using score_follows_collision_by_one_tick[OF a demo_tick1 b demo_tick2 c demo_tick3] a b c s demo_tick1 demo_tick2 demo_tick3
    by simp
qed

text \<open>
  C1 as stated fails: in the concrete session the head lands on the food in the first
  tick and the event fires, yet score and length are unchanged after that tick; they
  increase in the second tick, which has no food-eaten event of its own.
\<close>

theorem score_unchanged_in_eating_tick:
  "\<not> gameOver demo_start \<and> \<not> foodEaten demo_start \<and>
   GameCore_Update (idle 0.5) demo_start = Some demo_ate \<and>
   snakeBody demo_ate ! 0 = applePos demo_start \<and> foodEaten demo_ate \<and>
   score demo_ate = score demo_start \<and> length_counter demo_ate = length_counter demo_start \<and>
   GameCore_Update (idle 0.625) demo_ate = Some demo_scored \<and>
   snakeBody demo_scored ! 0 \<noteq> applePos demo_ate \<and> \<not> foodEaten demo_scored \<and>
   score demo_scored = score demo_ate + 10 \<and>
   length_counter demo_scored = length_counter demo_ate + 1"
  using demo_tick1 demo_tick2 by (simp add: demo_start_def demo_ate_def demo_scored_def)

text \<open>
  C2, as amended. If the food lies exactly one cell ahead of the head in the direction
  resolved on the tick of a scheduled advance, and the random source eventually draws a
  cell off the snake, then that tick completes, the food-eaten event fires, the
  pending-growth flag is set and the newly produced food coordinate is not equal to any
  cell of the snake body. On that tick the tail is removed unless growth was already
  pending, and the length counter is not increased by this event. The length counter has
  increased by 1, and the tail is kept, on the next scheduled advance (after any number
  of frames that do not advance), provided the game is not over.
\<close>

theorem eating_tick_and_deferred_growth:
  assumes run: "\<not> gameOver g" and ne: "snakeBody g \<noteq> []"
    and adv: "GetTime k - lastUpdateTime g \<ge> interval g"
    and ahead: "applePos g = Vector2Add (snakeBody g ! 0) (fst (getMoveDirection k g))"
    and free: "\<exists>n. draw (rng g) n \<notin> set (snakeBody (Snake_Update k g))"
  shows "\<exists>g1. GameCore_Update k g = Some g1 \<and> foodEaten g1 \<and> addSegment g1 \<and>
      applePos g1 \<notin> set (snakeBody g1) \<and>
      snakeBody g1 = applePos g # (if addSegment g then snakeBody g else butlast (snakeBody g)) \<and>
      length_counter g1 = (if foodEaten g then length_counter g + 1 else length_counter g) \<and>
      (\<forall>ws g2 ka g3.
         \<not> gameOver g1 \<and> (\<forall>w\<in>set ws. \<not> GetTime w - lastUpdateTime g1 \<ge> interval g1) \<and>
         exec ws g1 = Some g2 \<and> GetTime ka - lastUpdateTime g1 \<ge> interval g1 \<and>
         GameCore_Update ka g2 = Some g3 \<longrightarrow>
           snakeBody g3 =
             Vector2Add (snakeBody g1 ! 0) (fst (getMoveDirection ka g2)) # snakeBody g1 \<and>
           length_counter g3 = length_counter g1 + 1)"
proof -
  obtain g1 where t: "GameCore_Update k g = Some g1"
    using tick_completes[OF ne, of k] free by blast
  note T = running_tick[OF run t]
  have body: "snakeBody g1 =
      applePos g # (if addSegment g then snakeBody g else butlast (snakeBody g))"
    using T(1) Snake_Update_advance(1)[OF adv ne] ahead by simp
  then have hd: "snakeBody g1 ! 0 = applePos g" by simp
  have eaten: "foodEaten g1" using T(8) hd by simp
  have grow: "addSegment g1" using T(9) hd by simp
  have fresh: "applePos g1 \<notin> set (snakeBody g1)" using T(11) hd by simp
  have later: "snakeBody g3 =
             Vector2Add (snakeBody g1 ! 0) (fst (getMoveDirection ka g2)) # snakeBody g1 \<and>
           length_counter g3 = length_counter g1 + 1"
    if h: "\<not> gameOver g1" "\<forall>w\<in>set ws. \<not> GetTime w - lastUpdateTime g1 \<ge> interval g1"
      "exec ws g1 = Some g2" "GetTime ka - lastUpdateTime g1 \<ge> interval g1"
      "GameCore_Update ka g2 = Some g3" for ws g2 ka g3
  proof -
    have ne1: "snakeBody g1 \<noteq> []" using body by simp
    have c: "calm g1" using tick_calm[OF run t h(1) fresh ne1] .
    note W = waiting[OF c h(2) h(3)]
    have run2: "\<not> gameOver g2" using W by (simp add: calm_def)
    have adv2: "GetTime ka - lastUpdateTime g2 \<ge> interval g2" using W h(4) by simp
    have ne2: "snakeBody g2 \<noteq> []" using W ne1 by simp
    note T2 = running_tick[OF run2 h(5)]
    have "snakeBody g3 =
        Vector2Add (snakeBody g1 ! 0) (fst (getMoveDirection ka g2)) # snakeBody g1"
      using T2(1) Snake_Update_advance(1)[OF adv2 ne2] W grow by simp
    moreover have "length_counter g3 = length_counter g1 + 1"
      using T2(7) W eaten by (cases "ws = []") simp_all
    ultimately show ?thesis by simp
  qed
  show ?thesis
    using t eaten grow fresh body T(7) later by blast
qed

theorem eating_tick_and_deferred_growth_witness:
  "\<not> gameOver demo_start \<and> snakeBody demo_start \<noteq> [] \<and>
   GetTime (idle 0.5) - lastUpdateTime demo_start \<ge> interval demo_start \<and>
   applePos demo_start =
     Vector2Add (snakeBody demo_start ! 0) (fst (getMoveDirection (idle 0.5) demo_start)) \<and>
   draw (rng demo_start) 0 \<notin> set (snakeBody (Snake_Update (idle 0.5) demo_start)) \<and>
   GameCore_Update (idle 0.5) demo_start = Some demo_ate \<and>
   foodEaten demo_ate \<and> addSegment demo_ate \<and> applePos demo_ate \<notin> set (snakeBody demo_ate) \<and>
   snakeBody demo_ate = applePos demo_start # butlast (snakeBody demo_start) \<and>
   length_counter demo_ate = length_counter demo_start \<and>
   \<not> gameOver demo_ate \<and> exec [idle 0.625, idle 0.75] demo_ate = Some demo_scored \<and>
   GameCore_Update (idle 1) demo_scored = Some demo_grown \<and>
   snakeBody demo_grown = (250, 350) # snakeBody demo_ate \<and>
   length_counter demo_grown = length_counter demo_ate + 1"
proof -
  have a: "\<not> gameOver demo_start" "snakeBody demo_start \<noteq> []"
    "GetTime (idle 0.5) - lastUpdateTime demo_start \<ge> interval demo_start"
    by (simp_all add: demo_start_def idle_def)
  have b: "applePos demo_start =
     Vector2Add (snakeBody demo_start ! 0) (fst (getMoveDirection (idle 0.5) demo_start))"
    by (simp add: demo_start_def tick_eval)
  have c: "draw (rng demo_start) 0 \<notin> set (snakeBody (Snake_Update (idle 0.5) demo_start))"
    by (simp add: demo_start_def tick_eval)
  then have c': "\<exists>n. draw (rng demo_start) n \<notin> set (snakeBody (Snake_Update (idle 0.5) demo_start))"
    by blast
  have w: "exec [idle 0.625, idle 0.75] demo_ate = Some demo_scored"
    using demo_tick2 demo_tick3 by simp
  have d: "\<not> gameOver demo_ate"
    "\<forall>w\<in>set [idle 0.625, idle 0.75]. \<not> GetTime w - lastUpdateTime demo_ate \<ge> interval demo_ate"
    "GetTime (idle 1) - lastUpdateTime demo_ate \<ge> interval demo_ate"
    by (simp_all add: demo_ate_def idle_def)
  obtain g1 where g1: "GameCore_Update (idle 0.5) demo_start = Some g1"
    "foodEaten g1" "addSegment g1" "applePos g1 \<notin> set (snakeBody g1)"
    "snakeBody g1 = applePos demo_start #
       (if addSegment demo_start then snakeBody demo_start else butlast (snakeBody demo_start))"
    "length_counter g1 =
       (if foodEaten demo_start then length_counter demo_start + 1 else length_counter demo_start)"
    and later: "\<And>ws g2 ka g3.
         \<not> gameOver g1 \<and> (\<forall>w\<in>set ws. \<not> GetTime w - lastUpdateTime g1 \<ge> interval g1) \<and>
         exec ws g1 = Some g2 \<and> GetTime ka - lastUpdateTime g1 \<ge> interval g1 \<and>
         GameCore_Update ka g2 = Some g3 \<Longrightarrow>
           snakeBody g3 =
             Vector2Add (snakeBody g1 ! 0) (fst (getMoveDirection ka g2)) # snakeBody g1 \<and>
           length_counter g3 = length_counter g1 + 1"
    using eating_tick_and_deferred_growth[OF a b c'] by blast
  have e: "g1 = demo_ate" using g1(1) demo_tick1 by simp
  have f: "snakeBody demo_grown =
             Vector2Add (snakeBody demo_ate ! 0) (fst (getMoveDirection (idle 1) demo_scored)) #
               snakeBody demo_ate \<and>
           length_counter demo_grown = length_counter demo_ate + 1"
    using later[of "[idle 0.625, idle 0.75]" demo_scored "idle 1" demo_grown] d w demo_tick4
    unfolding e by blast
  have h: "Vector2Add (snakeBody demo_ate ! 0) (fst (getMoveDirection (idle 1) demo_scored)) =
      (250, 350)"
    by (simp add: demo_ate_def demo_scored_def tick_eval)
  have i: "\<not> addSegment demo_start" "\<not> foodEaten demo_start" by (simp_all add: demo_start_def)
  show ?thesis
    using a b c d(1) w demo_tick1 demo_tick4 f h g1(2-6) i unfolding e by simp
qed

text \<open>
  C2 as stated fails: in the concrete session the food is one cell ahead and the first
  tick is a scheduled advance, yet after it the length counter is unchanged, the body
  has as many cells as before and the old tail cell is gone.
\<close>

theorem eating_tick_removes_tail:
  "applePos demo_start =
     Vector2Add (snakeBody demo_start ! 0) (Vector2Scale (lastDirection demo_start) cellSize) \<and>
   GetTime (idle 0.5) - lastUpdateTime demo_start \<ge> interval demo_start \<and>
   GameCore_Update (idle 0.5) demo_start = Some demo_ate \<and>
   length_counter demo_ate = length_counter demo_start \<and>
   length (snakeBody demo_ate) = length (snakeBody demo_start) \<and>
   last (snakeBody demo_start) \<notin> set (snakeBody demo_ate)"
  using demo_tick1
  by (simp add: demo_start_def demo_ate_def idle_def Vector2Add_def Vector2Scale_def cellSize_def)

text \<open>
  C5. On a scheduled advance the new head is the old head plus the direction times the
  cell size, put in front; with the pending-growth flag set the flag is cleared and the
  tail kept (one cell more), otherwise the tail is removed (as many cells as before). A
  frame whose elapsed time is below the interval leaves the body as it is. Hence after
  any run of frames that keep the direction and end with the game not over, the head is
  the initial head plus N times (direction times cell size), N the number of scheduled
  advances in the run.
\<close>

theorem movement_schedule_and_linear_motion:
  assumes "snakeBody g \<noteq> []"
  shows "(GetTime k - lastUpdateTime g \<ge> interval g \<longrightarrow>
       snakeBody (Snake_Update k g) =
         Vector2Add (snakeBody g ! 0) (Vector2Scale (lastDirection (Snake_Update k g)) cellSize) #
           (if addSegment g then snakeBody g else butlast (snakeBody g)) \<and>
       \<not> addSegment (Snake_Update k g) \<and>
       length (snakeBody (Snake_Update k g)) =
         (if addSegment g then length (snakeBody g) + 1 else length (snakeBody g))) \<and>
     (\<not> GetTime k - lastUpdateTime g \<ge> interval g \<longrightarrow>
       snakeBody (Snake_Update k g) = snakeBody g) \<and>
     (unitDirection (lastDirection g) \<and>
      (\<forall>f\<in>set ks. resolve_spec f (lastDirection g) = lastDirection g) \<and>
      exec ks g = Some g' \<and> \<not> gameOver g' \<longrightarrow>
       snakeBody g' ! 0 =
         Vector2Add (snakeBody g ! 0)
           (Vector2Scale (Vector2Scale (lastDirection g) cellSize)
              (int (advances (interval g) (lastUpdateTime g) ks))))"
proof (intro conjI impI)
  assume a: "GetTime k - lastUpdateTime g \<ge> interval g"
  show "snakeBody (Snake_Update k g) =
         Vector2Add (snakeBody g ! 0) (Vector2Scale (lastDirection (Snake_Update k g)) cellSize) #
           (if addSegment g then snakeBody g else butlast (snakeBody g))"
    using Snake_Update_advance(1)[OF a assms] by (simp add: getMoveDirection_fst)
  show "\<not> addSegment (Snake_Update k g)" using Snake_Update_advance(2)[OF a assms] by simp
  show "length (snakeBody (Snake_Update k g)) =
         (if addSegment g then length (snakeBody g) + 1 else length (snakeBody g))"
    using Snake_Update_advance(1)[OF a assms] assms by (cases "snakeBody g") simp_all
next
  assume "\<not> GetTime k - lastUpdateTime g \<ge> interval g"
  then show "snakeBody (Snake_Update k g) = snakeBody g" by (rule Snake_Update_wait(1))
next
  assume h: "unitDirection (lastDirection g) \<and>
      (\<forall>f\<in>set ks. resolve_spec f (lastDirection g) = lastDirection g) \<and>
      exec ks g = Some g' \<and> \<not> gameOver g'"
  then show "snakeBody g' ! 0 =
         Vector2Add (snakeBody g ! 0)
           (Vector2Scale (Vector2Scale (lastDirection g) cellSize)
              (int (advances (interval g) (lastUpdateTime g) ks)))"
    using linear_motion[of "lastDirection g" g ks g'] assms by blast
qed

theorem movement_schedule_and_linear_motion_witness:
  "snakeBody demo_start \<noteq> [] \<and> snakeBody demo_scored \<noteq> [] \<and>
   GetTime (idle 0.5) - lastUpdateTime demo_start \<ge> interval demo_start \<and>
   \<not> addSegment demo_start \<and>
   snakeBody (Snake_Update (idle 0.5) demo_start) = [(300, 350), (350, 350)] \<and>
   GetTime (idle 1) - lastUpdateTime demo_scored \<ge> interval demo_scored \<and>
   addSegment demo_scored \<and>
   snakeBody (Snake_Update (idle 1) demo_scored) = [(250, 350), (300, 350), (350, 350)] \<and>
   \<not> addSegment (Snake_Update (idle 1) demo_scored) \<and>
   \<not> GetTime (idle 0.75) - lastUpdateTime demo_scored \<ge> interval demo_scored \<and>
   snakeBody (Snake_Update (idle 0.75) demo_scored) = snakeBody demo_scored \<and>
   unitDirection (lastDirection demo_start) \<and>
   resolve_spec (idle 0.5) (lastDirection demo_start) = lastDirection demo_start \<and>
   exec [idle 0.5, idle 0.625, idle 0.75, idle 1] demo_start = Some demo_grown \<and>
   \<not> gameOver demo_grown \<and>
   advances (interval demo_start) (lastUpdateTime demo_start)
     [idle 0.5, idle 0.625, idle 0.75, idle 1] = 2 \<and>
   snakeBody demo_grown ! 0 = Vector2Add (snakeBody demo_start ! 0) (-100, 0)"
proof -
  have ne: "snakeBody demo_start \<noteq> []" "snakeBody demo_scored \<noteq> []"
    by (simp_all add: demo_start_def demo_scored_def)
  have t: "GetTime (idle 0.5) - lastUpdateTime demo_start \<ge> interval demo_start"
    "GetTime (idle 1) - lastUpdateTime demo_scored \<ge> interval demo_scored"
    "\<not> GetTime (idle 0.75) - lastUpdateTime demo_scored \<ge> interval demo_scored"
    by (simp_all add: demo_start_def demo_scored_def idle_def)
  have u: "unitDirection (lastDirection demo_start)"
    by (simp add: demo_start_def unitDirection_def)
  have r: "resolve_spec f (lastDirection demo_start) = lastDirection demo_start"
    if "f \<in> set [idle 0.5, idle 0.625, idle 0.75, idle 1]" for f
    using that by (auto simp: resolve_spec_def candidates_def idle_def)
  have n: "advances (interval demo_start) (lastUpdateTime demo_start)
     [idle 0.5, idle 0.625, idle 0.75, idle 1] = 2"
    by (simp add: demo_start_def idle_def)
  have o: "\<not> gameOver demo_grown" by (simp add: demo_grown_def)
  have m1: "snakeBody (Snake_Update (idle 0.5) demo_start) =
      Vector2Add (snakeBody demo_start ! 0)
        (Vector2Scale (lastDirection (Snake_Update (idle 0.5) demo_start)) cellSize) #
      (if addSegment demo_start then snakeBody demo_start else butlast (snakeBody demo_start))"
    and m4: "snakeBody demo_grown ! 0 =
         Vector2Add (snakeBody demo_start ! 0)
           (Vector2Scale (Vector2Scale (lastDirection demo_start) cellSize)
              (int (advances (interval demo_start) (lastUpdateTime demo_start)
                 [idle 0.5, idle 0.625, idle 0.75, idle 1])))"
    using movement_schedule_and_linear_motion[OF ne(1), of "idle 0.5" "[idle 0.5, idle 0.625, idle 0.75, idle 1]" demo_grown]
      t(1) u r demo_four o by blast+
  have m2: "snakeBody (Snake_Update (idle 1) demo_scored) =
      Vector2Add (snakeBody demo_scored ! 0)
        (Vector2Scale (lastDirection (Snake_Update (idle 1) demo_scored)) cellSize) #
      (if addSegment demo_scored then snakeBody demo_scored else butlast (snakeBody demo_scored))"
    and m2b: "\<not> addSegment (Snake_Update (idle 1) demo_scored)"
    using movement_schedule_and_linear_motion[OF ne(2), of "idle 1"] t(2) by blast+
  have m3: "snakeBody (Snake_Update (idle 0.75) demo_scored) = snakeBody demo_scored"
    using movement_schedule_and_linear_motion[OF ne(2), of "idle 0.75"] t(3) by blast
  have d: "lastDirection (Snake_Update (idle 0.5) demo_start) = (-1, 0)"
    "lastDirection (Snake_Update (idle 1) demo_scored) = (-1, 0)"
    by (simp_all add: getMoveDirection_def idle_def demo_start_def demo_scored_def)
  have "snakeBody (Snake_Update (idle 0.5) demo_start) = [(300, 350), (350, 350)]"
    unfolding m1 d by (simp add: demo_start_def Vector2Add_def Vector2Scale_def cellSize_def)
  moreover have "snakeBody (Snake_Update (idle 1) demo_scored) =
      [(250, 350), (300, 350), (350, 350)]"
    unfolding m2 d by (simp add: demo_scored_def Vector2Add_def Vector2Scale_def cellSize_def)
  moreover have "snakeBody demo_grown ! 0 = Vector2Add (snakeBody demo_start ! 0) (-100, 0)"
    unfolding m4 n by (simp add: demo_start_def Vector2Add_def Vector2Scale_def cellSize_def)
  moreover have "\<not> addSegment demo_start" "addSegment demo_scored"
    by (simp_all add: demo_start_def demo_scored_def)
  ultimately show ?thesis using ne t u r[of "idle 0.5"] n o m2b m3 demo_four by simp
qed

text \<open>
  C9. \<open>Snake::Update\<close> stores the resolved direction on every frame, whether or not the
  frame advances, and the reversal check reads that stored direction. In the concrete
  session the snake advances left; W alone and then D alone are pressed on two frames
  inside the same movement interval, neither of which moves the body; the next advance
  then moves the head right, the exact reverse of the previous advance (and, the snake
  being about to grow, onto its own body).
\<close>

theorem reversal_within_one_interval:
  "(\<forall>k g. lastDirection (Snake_Update k g) = lastDirection (snd (getMoveDirection k g))) \<and>
   GameCore ''Medium'' demo_rng = Some demo_start \<and>
   GameCore_Update (idle 0.5) demo_start = Some demo_ate \<and>
   snakeBody demo_ate ! 0 = Vector2Add (snakeBody demo_start ! 0) (Vector2Scale (-1, 0) cellSize) \<and>
   GameCore_Update (onlyW 0.625) demo_ate = Some demo_up \<and>
   snakeBody demo_up = snakeBody demo_ate \<and> lastDirection demo_up = (0, -1) \<and>
   GameCore_Update (onlyD 0.75) demo_up = Some demo_right \<and>
   snakeBody demo_right = snakeBody demo_ate \<and> lastDirection demo_right = (1, 0) \<and>
   GetTime (onlyD 0.75) - lastUpdateTime demo_ate < interval demo_ate \<and>
   GameCore_Update (idle 1) demo_right = Some demo_reversed \<and>
   snakeBody demo_reversed ! 0 =
     Vector2Add (snakeBody demo_right ! 0) (Vector2Scale (reverse (-1, 0)) cellSize) \<and>
   gameOver demo_reversed"
proof -
  have "snakeBody demo_ate ! 0 =
      Vector2Add (snakeBody demo_start ! 0) (Vector2Scale (-1, 0) cellSize)"
    by (simp add: demo_ate_def demo_start_def Vector2Add_def Vector2Scale_def cellSize_def)
  moreover have "snakeBody demo_up = snakeBody demo_ate \<and> lastDirection demo_up = (0, -1) \<and>
      snakeBody demo_right = snakeBody demo_ate \<and> lastDirection demo_right = (1, 0)"
    by (simp add: demo_ate_def demo_up_def demo_right_def)
  moreover have "GetTime (onlyD 0.75) - lastUpdateTime demo_ate < interval demo_ate"
    by (simp add: demo_ate_def onlyD_def)
  moreover have "snakeBody demo_reversed ! 0 =
      Vector2Add (snakeBody demo_right ! 0) (Vector2Scale (reverse (-1, 0)) cellSize) \<and>
      gameOver demo_reversed"
    by (simp add: demo_reversed_def demo_right_def Vector2Add_def Vector2Scale_def cellSize_def
        reverse_def)
  ultimately show ?thesis
    using demo_start_constructed demo_tick1 demo_turn_up demo_turn_right demo_reverse
    by simp
qed

text \<open>
  C4. In every tick that a session performs with game-over false, the collision
  evaluation, run on the body as the movement step left it, sets game-over to true if
  and only if the head is outside the half-open board rectangle
  \<open>[offset, offset + gridWidth) \<times> [offset, offset + gridHeight)\<close> or equals some body
  segment at an index of 1 or more.
\<close>

theorem game_over_iff_border_or_self_collision:
  assumes "GameCore sDifficulty rs = Some g0" "exec ks g0 = Some g"
    and "\<not> gameOver g" "GameCore_Update k g = Some g'"
  shows "snakeBody g' = snakeBody (Snake_Update k g) \<and>
    (gameOver g' \<longleftrightarrow>
       \<not> insideBoard (snakeBody g' ! 0) \<or>
       (\<exists>i. 1 \<le> i \<and> i < length (snakeBody g') \<and> snakeBody g' ! i = snakeBody g' ! 0))"
proof -
  have wf: "wellFormed g" using assms(1,2) constructed_wellFormed exec_wellFormed by blast
  have wf': "wellFormed g'" using wf assms(4) by (rule tick_wellFormed)
  note T = running_tick[OF assms(3,4)]
  let ?b' = "snakeBody g'"
  have ne': "?b' \<noteq> []" and d: "distinct (tl ?b')" and bc: "list_all boardCell (tl ?b')"
    using wf' by (simp_all add: wellFormed_def)
  have "length (tl ?b') \<le> 256" using d bc by (rule boardCell_length)
  then have len: "length ?b' < 65536" by simp
  have cg: "\<not> collision_gameOver g" using wf assms(3) by (simp add: wellFormed_def)
  obtain hit where hit: "selfCollisionLoop 1 (?b' ! 0) ?b' = Some hit"
    and cg': "collision_gameOver g' = (collision_gameOver g \<or> \<not> insideBoard (?b' ! 0) \<or> hit)"
    using T(13) by blast
  have "hit = (?b' ! 0 \<in> set (tl ?b'))" using hit selfCollisionLoop_tl[OF len ne'] by simp
  then have "gameOver g' = (\<not> insideBoard (?b' ! 0) \<or> ?b' ! 0 \<in> set (tl ?b'))"
    using T(12) cg' cg by simp
  then show ?thesis using T(1) tl_index[OF ne', of "?b' ! 0"] by simp
qed

theorem game_over_iff_border_or_self_collision_witness:
  "GameCore ''Medium'' demo_rng = Some demo_start \<and>
   exec [idle 0.5, idle 1, idle 1.5, idle 2, idle 2.5, idle 3] demo_start = Some demo_edge \<and>
   \<not> gameOver demo_edge \<and> GameCore_Update (idle 3.5) demo_edge = Some demo_over \<and>
   \<not> insideBoard (snakeBody demo_over ! 0) \<and> gameOver demo_over \<and>
   exec [idle 0.5, onlyW 0.625, onlyD 0.75] demo_start = Some demo_right \<and>
   \<not> gameOver demo_right \<and> GameCore_Update (idle 1) demo_right = Some demo_reversed \<and>
   insideBoard (snakeBody demo_reversed ! 0) \<and>
   snakeBody demo_reversed ! 2 = snakeBody demo_reversed ! 0 \<and> gameOver demo_reversed \<and>
   exec [] demo_start = Some demo_start \<and>
   \<not> gameOver demo_start \<and> GameCore_Update (idle 0.5) demo_start = Some demo_ate \<and>
   insideBoard (snakeBody demo_ate ! 0) \<and>
   snakeBody demo_ate ! 1 \<noteq> snakeBody demo_ate ! 0 \<and> length (snakeBody demo_ate) = 2 \<and>
   \<not> gameOver demo_ate"
proof -
  have n: "\<not> gameOver demo_edge" "\<not> gameOver demo_right" "\<not> gameOver demo_start"
    by (simp_all add: demo_edge_def demo_right_def demo_start_def)
  have e: "exec [] demo_start = Some demo_start" by simp
  have out: "\<not> insideBoard (snakeBody demo_over ! 0)"
    by (simp add: demo_over_def insideBoard_def geometry)
  have rev: "insideBoard (snakeBody demo_reversed ! 0)"
    "snakeBody demo_reversed ! 2 = snakeBody demo_reversed ! 0"
    "length (snakeBody demo_reversed) = 3"
    by (simp_all add: demo_reversed_def insideBoard_def geometry)
  have ate: "insideBoard (snakeBody demo_ate ! 0)"
    "snakeBody demo_ate ! 1 \<noteq> snakeBody demo_ate ! 0" "length (snakeBody demo_ate) = 2"
    by (simp_all add: demo_ate_def insideBoard_def geometry)
  have "gameOver demo_over"
    using game_over_iff_border_or_self_collision[OF demo_start_constructed demo_to_edge n(1) demo_edge_crash] out by blast
  moreover have "\<exists>i. 1 \<le> i \<and> i < length (snakeBody demo_reversed) \<and>
      snakeBody demo_reversed ! i = snakeBody demo_reversed ! 0"
    using rev(2,3) by (intro exI[of _ 2]) simp
  then have "gameOver demo_reversed"
    using game_over_iff_border_or_self_collision[OF demo_start_constructed demo_to_right n(2) demo_reverse] by blast
  moreover have "\<not> (\<exists>i. 1 \<le> i \<and> i < length (snakeBody demo_ate) \<and>
      snakeBody demo_ate ! i = snakeBody demo_ate ! 0)"
  proof
    assume "\<exists>i. 1 \<le> i \<and> i < length (snakeBody demo_ate) \<and>
      snakeBody demo_ate ! i = snakeBody demo_ate ! 0"
    then obtain i where i: "1 \<le> i" "i < 2" "snakeBody demo_ate ! i = snakeBody demo_ate ! 0"
      using ate(3) by auto
    then have "i = 1" by simp
    then show False using i(3) ate(2) by simp
  qed
  then have "\<not> gameOver demo_ate"
    using game_over_iff_border_or_self_collision[OF demo_start_constructed e n(3) demo_tick1] ate(1) by blast
  ultimately show ?thesis
    using demo_start_constructed demo_to_edge demo_edge_crash demo_to_right demo_reverse
      demo_tick1 n e out rev ate by simp
qed

text \<open>
  C10. In every state of a session, so at the end of every completed collision
  evaluation, the food position differs from every cell of the snake body. Whenever the
  head has landed on the food, the evaluation raises the food-eaten event and moves the
  food to a cell off the body.
\<close>

theorem food_never_on_snake:
  assumes "GameCore sDifficulty rs = Some g0" "exec ks g0 = Some g"
  shows "applePos g \<notin> set (snakeBody g) \<and>
    (\<forall>k over g'. \<not> gameOver g \<and> handle (ScoreHandler_Update (Snake_Update k g)) = Some (over, g') \<longrightarrow>
       applePos g' \<notin> set (snakeBody g') \<and>
       (snakeBody g' ! 0 = applePos g \<longrightarrow> foodEaten g' \<and> applePos g' \<noteq> applePos g))"
proof -
  have wf: "wellFormed g" using assms constructed_wellFormed exec_wellFormed by blast
  have "applePos g' \<notin> set (snakeBody g') \<and>
       (snakeBody g' ! 0 = applePos g \<longrightarrow> foodEaten g' \<and> applePos g' \<noteq> applePos g)"
    if h: "\<not> gameOver g" "handle (ScoreHandler_Update (Snake_Update k g)) = Some (over, g')"
    for k over g'
  proof -
    have t: "GameCore_Update k g = Some (g'\<lparr>gameOver := over\<rparr>)"
      using h by (simp add: GameCore_Update_def)
    have wf': "wellFormed (g'\<lparr>gameOver := over\<rparr>)" using wf t by (rule tick_wellFormed)
    note T = running_tick[OF h(1) t]
    have a: "applePos g' \<notin> set (snakeBody g')" and ne: "snakeBody g' \<noteq> []"
      using wf' by (simp_all add: wellFormed_def)
    have "snakeBody g' ! 0 \<in> set (snakeBody g')" using ne by simp
    then have "applePos g' \<noteq> snakeBody g' ! 0" using a by metis
    then show ?thesis using a T(8) by auto
  qed
  moreover have "applePos g \<notin> set (snakeBody g)" using wf by (simp add: wellFormed_def)
  ultimately show ?thesis by blast
qed

theorem food_never_on_snake_witness:
  "GameCore ''Medium'' demo_rng = Some demo_start \<and>
   exec [] demo_start = Some demo_start \<and> \<not> gameOver demo_start \<and>
   applePos demo_start \<notin> set (snakeBody demo_start) \<and>
   handle (ScoreHandler_Update (Snake_Update (idle 0.5) demo_start)) = Some (False, demo_ate) \<and>
   snakeBody demo_ate ! 0 = applePos demo_start \<and>
   foodEaten demo_ate \<and> applePos demo_ate \<noteq> applePos demo_start \<and>
   applePos demo_ate \<notin> set (snakeBody demo_ate) \<and>
   exec [idle 0.5, idle 0.625, idle 0.75, idle 1] demo_start = Some demo_grown \<and>
   applePos demo_grown \<notin> set (snakeBody demo_grown)"
proof -
  have e: "exec [] demo_start = Some demo_start" by simp
  have n: "\<not> gameOver demo_start" "snakeBody demo_ate ! 0 = applePos demo_start"
    by (simp_all add: demo_start_def demo_ate_def)
  have a: "applePos demo_start \<notin> set (snakeBody demo_start)"
    and b: "applePos demo_ate \<notin> set (snakeBody demo_ate) \<and>
       (snakeBody demo_ate ! 0 = applePos demo_start \<longrightarrow>
          foodEaten demo_ate \<and> applePos demo_ate \<noteq> applePos demo_start)"
    using food_never_on_snake[OF demo_start_constructed e] n(1) demo_handle by blast+
  have c: "applePos demo_grown \<notin> set (snakeBody demo_grown)"
    using food_never_on_snake[OF demo_start_constructed demo_four] by blast
  show ?thesis
    using demo_start_constructed e n a b c demo_handle demo_four by blast
qed

text \<open>
  C7. For every snake body that leaves at least one board cell free, the loop of the
  food spawner ends and returns a grid-aligned cell on the board that is not a cell of
  the body. The random source is taken to answer within the bounds it is asked for and
  to draw every cell of the board in some round.
\<close>

theorem spawner_terminates_on_free_cell:
  assumes "randomSource rs" "fair rs"
    and "\<exists>i j. 0 \<le> i \<and> i \<le> rows - 1 \<and> 0 \<le> j \<and> j \<le> cols - 1 \<and> cell i j \<notin> set body"
  shows "\<exists>pos rs'. generateRandomPos body rs = Some (pos, rs') \<and>
           \<not> shouldGenerateAgain body pos \<and> pos \<notin> set body \<and> boardCell pos"
proof -
  obtain i j where c: "0 \<le> i \<and> i \<le> rows - 1 \<and> 0 \<le> j \<and> j \<le> cols - 1" "cell i j \<notin> set body"
    using assms(3) by blast
  obtain n where "draw rs n = cell i j" using assms(2) c(1) unfolding fair_def by blast
  then have "\<exists>n. draw rs n \<notin> set body" using c(2) by metis
  then obtain m where "generateRandomPos body rs = Some (draw rs m, sdrop (2 * m + 2) rs)"
    "draw rs m \<notin> set body"
    using generateRandomPos_terminates by blast
  then show ?thesis using boardCell_draw[OF assms(1), of m]
    by (auto simp: shouldGenerateAgain_set)
qed

theorem spawner_terminates_on_free_cell_witness:
  "randomSource sweep \<and> fair sweep \<and> cell 0 1 \<notin> set [(50, 50), (100, 50)] \<and>
   draw sweep 0 \<in> set [(50, 50), (100, 50)] \<and>
   generateRandomPos [(50, 50), (100, 50)] sweep = Some ((50, 100), sdrop 4 sweep) \<and>
   boardCell (50, 100)"
proof -
  have f: "cell 0 1 \<notin> set [(50, 50), (100, 50)]" by (simp add: cell_def geometry)
  then have "\<exists>i j. 0 \<le> i \<and> i \<le> rows - 1 \<and> 0 \<le> j \<and> j \<le> cols - 1 \<and>
      cell i j \<notin> set [(50, 50), (100, 50)]"
    by (intro exI[of _ 0] exI[of _ 1]) (simp add: geometry)
  then obtain pos rs' where r: "generateRandomPos [(50, 50), (100, 50)] sweep = Some (pos, rs')"
    "boardCell pos"
    using spawner_terminates_on_free_cell[OF randomSource_sweep fair_sweep] by blast
  have d0: "draw sweep 0 \<in> set [(50, 50), (100, 50)]" by (simp add: draw_sweep cell_def geometry)
  have d1: "draw sweep 1 \<notin> set [(50, 50), (100, 50)]" by (simp add: draw_sweep cell_def geometry)
  have "generateRandomPos [(50, 50), (100, 50)] sweep = Some (draw sweep 1, sdrop (2 * 1 + 2) sweep)"
    using d0 by (intro generateRandomPos_first[OF d1]) simp
  then have e: "generateRandomPos [(50, 50), (100, 50)] sweep = Some ((50, 100), sdrop 4 sweep)"
    by (simp add: draw_sweep cell_def geometry)
  then have "pos = (50, 100)" using r(1) by simp
  then show ?thesis using randomSource_sweep fair_sweep f d0 e r(2) by simp
qed

end
